theory Spec2Isabelle
  imports Complex_Main "HOL-Library.Product_Lexorder"
begin

section \<open>Python strings\<close>

text \<open>
  A Python \<^verbatim>\<open>str\<close> is a sequence of Unicode code points, so it is modelled as a list
  of natural numbers; \<open>ascii\<close> embeds an ASCII literal.  Literals of the source that are
  not ASCII are written as their code points.
\<close>

type_synonym pystr = "nat list"

definition ascii :: "string \<Rightarrow> pystr" where
  "ascii s = map of_char s"

text \<open>\<^verbatim>\<open>str.isspace\<close> on one code point: the whitespace set used by \<^verbatim>\<open>split()\<close>,
  \<^verbatim>\<open>strip()\<close> and \<^verbatim>\<open>rstrip()\<close> without arguments.\<close>

definition isspace :: "nat \<Rightarrow> bool" where
  "isspace c \<longleftrightarrow>
     (0x09 \<le> c \<and> c \<le> 0x0D) \<or> (0x1C \<le> c \<and> c \<le> 0x20) \<or> c = 0x85 \<or> c = 0xA0 \<or>
     c = 0x1680 \<or> (0x2000 \<le> c \<and> c \<le> 0x200A) \<or> c = 0x2028 \<or> c = 0x2029 \<or>
     c = 0x202F \<or> c = 0x205F \<or> c = 0x3000"

definition lstrip :: "pystr \<Rightarrow> pystr" where
  "lstrip s = dropWhile isspace s"

definition rstrip :: "pystr \<Rightarrow> pystr" where
  "rstrip s = rev (dropWhile isspace (rev s))"

definition strip :: "pystr \<Rightarrow> pystr" where
  "strip s = rstrip (lstrip s)"

text \<open>\<^verbatim>\<open>s.replace(old, new)\<close> for one-character \<open>old\<close> and \<open>new\<close>.\<close>

definition replace_char :: "nat \<Rightarrow> nat \<Rightarrow> pystr \<Rightarrow> pystr" where
  "replace_char old new s = map (\<lambda>c. if c = old then new else c) s"

text \<open>Splitting into the maximal non-empty runs of characters that are not separators;
  \<open>cur\<close> is the run being read.  \<^verbatim>\<open>s.split()\<close> is the instance for whitespace.\<close>

fun tokens :: "(nat \<Rightarrow> bool) \<Rightarrow> pystr \<Rightarrow> pystr \<Rightarrow> pystr list" where
  "tokens sep cur [] = (if cur = [] then [] else [cur])"
| "tokens sep cur (c # cs) =
     (if sep c then (if cur = [] then tokens sep [] cs else cur # tokens sep [] cs)
      else tokens sep (cur @ [c]) cs)"

definition split :: "pystr \<Rightarrow> pystr list" where
  "split s = tokens isspace [] s"

text \<open>\<^verbatim>\<open>s.startswith(p)\<close> and \<^verbatim>\<open>t in s\<close>.\<close>

fun startswith :: "pystr \<Rightarrow> pystr \<Rightarrow> bool" where
  "startswith s [] = True"
| "startswith [] (p # ps) = False"
| "startswith (c # cs) (p # ps) = (c = p \<and> startswith cs ps)"

fun contains :: "pystr \<Rightarrow> pystr \<Rightarrow> bool" where
  "contains [] t = (t = [])"
| "contains (c # cs) t = (startswith (c # cs) t \<or> contains cs t)"

text \<open>\<^verbatim>\<open>d.get(k, default)\<close> on a dictionary.\<close>

definition dict_get :: "('k \<rightharpoonup> 'v) \<Rightarrow> 'k \<Rightarrow> 'v \<Rightarrow> 'v" where
  "dict_get d k dflt = (case d k of Some v \<Rightarrow> v | None \<Rightarrow> dflt)"

text \<open>\<^verbatim>\<open>sep.join(xs)\<close>, \<^verbatim>\<open>s.split(sep)\<close> for a one-character separator (\<open>cur\<close> is the part
  being read), and \<^verbatim>\<open>s.rstrip(chars)\<close> for one character.\<close>

fun join :: "pystr \<Rightarrow> pystr list \<Rightarrow> pystr" where
  "join sep [] = []"
| "join sep [x] = x"
| "join sep (x # y # ys) = x @ sep @ join sep (y # ys)"

fun split_on :: "nat \<Rightarrow> pystr \<Rightarrow> pystr \<Rightarrow> pystr list" where
  "split_on sep cur [] = [cur]"
| "split_on sep cur (c # cs) =
     (if c = sep then cur # split_on sep [] cs else split_on sep (cur @ [c]) cs)"

definition rstrip_char :: "nat \<Rightarrow> pystr \<Rightarrow> pystr" where
  "rstrip_char ch s = rev (dropWhile (\<lambda>c. c = ch) (rev s))"

text \<open>\<^verbatim>\<open>str(n)\<close> for an integer: its decimal digits, with a minus sign when negative.\<close>

fun str_nat :: "nat \<Rightarrow> pystr" where
  "str_nat n = (if n < 10 then [48 + n] else str_nat (n div 10) @ [48 + n mod 10])"

declare str_nat.simps [simp del]

definition str_int :: "int \<Rightarrow> pystr" where
  "str_int i = (if i < 0 then 45 # str_nat (nat (- i)) else str_nat (nat i))"

text \<open>The truth value of an \<^verbatim>\<open>Optional[str]\<close>: neither \<^verbatim>\<open>None\<close> nor the empty text.\<close>

definition truthy :: "pystr option \<Rightarrow> bool" where
  "truthy e = (case e of None \<Rightarrow> False | Some s \<Rightarrow> s \<noteq> [])"

section \<open>Method extraction and change detection (ast\_parser.py)\<close>

record MethodInfo =
  package_name :: pystr
  class_name :: pystr
  method_name :: pystr
  modifiers :: "pystr list"
  return_type :: "pystr option"
  parameters :: "pystr list"

record ClassInfo =
  package_name :: pystr
  class_name :: pystr
  methods :: "MethodInfo list"

record ParseResult =
  classes :: "ClassInfo list"
  errors :: "pystr list"

text \<open>\<^verbatim>\<open>parse_java_code\<close> rests on the parser of the \<^verbatim>\<open>javalang\<close> library, which is not part
  of the repository; it is the parameter \<open>parse\<close> of the functions below.\<close>

fun extend_methods :: "MethodInfo list \<Rightarrow> ClassInfo list \<Rightarrow> MethodInfo list" where
  "extend_methods ms [] = ms"
| "extend_methods ms (cls # rest) = extend_methods (ms @ methods cls) rest"

definition extract_methods_from_code :: "(pystr \<Rightarrow> ParseResult) \<Rightarrow> pystr \<Rightarrow> MethodInfo list" where
  "extract_methods_from_code parse source_code =
     (let result = parse source_code in extend_methods [] (classes result))"

text \<open>The identity key \<^verbatim>\<open>package.Class.method(T1,...,Tn)\<close> of a method.\<close>

definition method_signature :: "MethodInfo \<Rightarrow> pystr" where
  "method_signature m =
     MethodInfo.package_name m @ ascii ''.'' @ MethodInfo.class_name m @ ascii ''.'' @
     method_name m @ ascii ''('' @ join (ascii '','') (parameters m) @ ascii '')''"

fun history_loop :: "pystr set \<Rightarrow> MethodInfo list \<Rightarrow> pystr set" where
  "history_loop history_signatures [] = history_signatures"
| "history_loop history_signatures (m # ms) =
     history_loop (insert (method_signature m) history_signatures) ms"

fun changed_loop :: "pystr set \<Rightarrow> MethodInfo list \<Rightarrow> MethodInfo list \<Rightarrow> MethodInfo list" where
  "changed_loop history_signatures changed [] = changed"
| "changed_loop history_signatures changed (m # ms) =
     (if method_signature m \<notin> history_signatures
      then changed_loop history_signatures (changed @ [m]) ms
      else changed_loop history_signatures changed ms)"

definition extract_changed_methods ::
  "(pystr \<Rightarrow> ParseResult) \<Rightarrow> pystr \<Rightarrow> pystr \<Rightarrow> MethodInfo list" where
  "extract_changed_methods parse current_code history_code =
     (let current_methods = extract_methods_from_code parse current_code;
          history_methods = extract_methods_from_code parse history_code;
          history_signatures = history_loop {} history_methods
      in changed_loop history_signatures [] current_methods)"

section \<open>Diff summaries (diff\_analyzer.py)\<close>

record DiffResult =
  package_path :: pystr
  added_lines :: "pystr list"
  removed_lines :: "pystr list"
  changed_lines :: "pystr list"

record AnalysisResult =
  diffs :: "DiffResult list"
  total_added :: int
  total_removed :: int
  error :: "pystr option"

text \<open>\<^verbatim>\<open>extract_package_path\<close>: the first line that, trimmed, starts with \<^verbatim>\<open>package \<close> and
  leaves a non-empty path; else \<^verbatim>\<open>unknown\<close>.\<close>

fun package_loop :: "pystr list \<Rightarrow> pystr" where
  "package_loop [] = ascii ''unknown''"
| "package_loop (line # rest) =
     (let stripped = strip line
      in if startswith stripped (ascii ''package '')
         then (let path = strip (rstrip_char 0x3B (drop (length (ascii ''package '')) stripped))
               in if path \<noteq> [] then path else package_loop rest)
         else package_loop rest)"

definition extract_package_path :: "pystr \<Rightarrow> pystr" where
  "extract_package_path code = package_loop (split_on 0x0A [] code)"

text \<open>The fixed texts of the summary, in the order of their use: "analysis error: ",
  "detected " ... " changed code files", "total added " ... " lines, total removed " ...
  " lines", "### file ", "  added " ... " lines, removed " ... " lines",
  "  added content:", "    ... " ... " more lines", "  removed content:".\<close>

definition text_error :: pystr where
  "text_error = [20998, 26512, 38169, 35823, 58, 32]"
definition text_detected :: pystr where
  "text_detected = [20849, 26816, 27979, 21040, 32]"
definition text_files_changed :: pystr where
  "text_files_changed = [32, 20010, 20195, 30721, 25991, 20214, 21464, 26356]"
definition text_total_added :: pystr where
  "text_total_added = [24635, 26032, 22686, 32]"
definition text_total_removed :: pystr where
  "text_total_removed = [32, 34892, 65292, 24635, 21024, 38500, 32]"
definition text_lines :: pystr where
  "text_lines = [32, 34892]"
definition text_file :: pystr where
  "text_file = [35, 35, 35, 32, 25991, 20214, 32]"
definition text_added :: pystr where
  "text_added = [32, 32, 26032, 22686, 32]"
definition text_removed :: pystr where
  "text_removed = [32, 34892, 44, 32, 21024, 38500, 32]"
definition text_added_content :: pystr where
  "text_added_content = [32, 32, 26032, 22686, 20869, 23481, 58]"
definition text_more :: pystr where
  "text_more = [32, 32, 32, 32, 46, 46, 46, 32, 36824, 26377, 32]"
definition text_removed_content :: pystr where
  "text_removed_content = [32, 32, 21024, 38500, 20869, 23481, 58]"

text \<open>The loop \<^verbatim>\<open>for line in side[:10]: lines.append(prefix + line.rstrip())\<close>.\<close>

fun append_content :: "pystr \<Rightarrow> pystr list \<Rightarrow> pystr list \<Rightarrow> pystr list" where
  "append_content prefix lines [] = lines"
| "append_content prefix lines (line # rest) =
     append_content prefix (lines @ [prefix @ rstrip line]) rest"

text \<open>The loop over \<^verbatim>\<open>enumerate(result.diffs, 1)\<close>, on the list \<open>lines\<close>.\<close>

fun format_diffs_loop :: "pystr list \<Rightarrow> nat \<Rightarrow> DiffResult list \<Rightarrow> pystr list" where
  "format_diffs_loop lines i [] = lines"
| "format_diffs_loop lines i (diff # rest) =
     (let lines = lines @ [text_file @ str_nat i @ ascii '': '' @ package_path diff];
          lines = lines @ [text_added @ str_nat (length (added_lines diff)) @ text_removed @
                           str_nat (length (removed_lines diff)) @ text_lines];
          lines =
            (if added_lines diff \<noteq> []
             then (let lines = lines @ [text_added_content];
                       lines = append_content (ascii ''    + '') lines (take 10 (added_lines diff))
                   in if 10 < length (added_lines diff)
                      then lines @ [text_more @ str_nat (length (added_lines diff) - 10) @
                                    text_lines]
                      else lines)
             else lines);
          lines =
            (if removed_lines diff \<noteq> []
             then (let lines = lines @ [text_removed_content];
                       lines = append_content (ascii ''    - '') lines
                                 (take 10 (removed_lines diff))
                   in if 10 < length (removed_lines diff)
                      then lines @ [text_more @ str_nat (length (removed_lines diff) - 10) @
                                    text_lines]
                      else lines)
             else lines);
          lines = lines @ [[]]
      in format_diffs_loop lines (i + 1) rest)"

text \<open>The list \<open>lines\<close> that \<^verbatim>\<open>format_diff_summary\<close> joins when the result has no error.\<close>

definition format_diff_lines :: "AnalysisResult \<Rightarrow> pystr list" where
  "format_diff_lines result =
     format_diffs_loop
       [text_detected @ str_nat (length (diffs result)) @ text_files_changed,
        text_total_added @ str_int (total_added result) @ text_total_removed @
          str_int (total_removed result) @ text_lines,
        []]
       1 (diffs result)"

definition format_diff_summary :: "AnalysisResult \<Rightarrow> pystr" where
  "format_diff_summary result =
     (if truthy (error result)
      then text_error @ (case error result of Some e \<Rightarrow> e | None \<Rightarrow> ascii ''None'')
      else join [0x0A] (format_diff_lines result))"

subsection \<open>The line diff of the standard library\<close>

text \<open>
  \<^verbatim>\<open>compute_diff\<close> splits both texts with \<^verbatim>\<open>splitlines(keepends=True)\<close> and calls
  \<^verbatim>\<open>difflib.unified_diff(history_lines, current_lines, fromfile="history",
  tofile="current", lineterm="")\<close>.  The module \<^verbatim>\<open>difflib\<close> belongs to the Python standard
  library and not to the repository; the functions of this subsection follow its source
  (CPython 3.11, \<^verbatim>\<open>Lib/difflib.py\<close>) for exactly these arguments: a \<^verbatim>\<open>SequenceMatcher\<close>
  without junk predicate, with the automatic junk heuristic, and three lines of context.
  Indices are natural numbers; where the source computes \<^verbatim>\<open>i-k+1\<close> the model computes
  \<open>Suc i - k\<close>, which is the same number because \<open>k \<le> i + 1\<close> there.
\<close>

text \<open>The line boundaries of \<^verbatim>\<open>str.splitlines\<close>; a carriage return followed by a line feed
  is one boundary.  \<open>cur\<close> is the line being read, and every line keeps its boundary.\<close>

definition is_linebreak :: "nat \<Rightarrow> bool" where
  "is_linebreak c \<longleftrightarrow>
     (0x0A \<le> c \<and> c \<le> 0x0D) \<or> (0x1C \<le> c \<and> c \<le> 0x1E) \<or> c = 0x85 \<or> c = 0x2028 \<or>
     c = 0x2029"

fun splitlines :: "pystr \<Rightarrow> pystr \<Rightarrow> pystr list" where
  "splitlines cur [] = (if cur = [] then [] else [cur])"
| "splitlines cur [c] = [cur @ [c]]"
| "splitlines cur (c # d # cs) =
     (if c = 0x0D \<and> d = 0x0A then (cur @ [c, d]) # splitlines [] cs
      else if is_linebreak c then (cur @ [c]) # splitlines [] (d # cs)
      else splitlines (cur @ [c]) (d # cs))"

text \<open>\<^verbatim>\<open>__chain_b\<close>: the dictionary \<^verbatim>\<open>b2j\<close> from a line of \<open>b\<close> to the ascending list of its
  indices.  There is no junk.  For 200 lines or more, a line that occurs more than
  \<open>n div 100 + 1\<close> times is popular and is removed from the dictionary.\<close>

fun chain_loop :: "(pystr \<rightharpoonup> nat list) \<Rightarrow> nat \<Rightarrow> pystr list \<Rightarrow> (pystr \<rightharpoonup> nat list)" where
  "chain_loop b2j i [] = b2j"
| "chain_loop b2j i (elt # rest) =
     chain_loop (b2j(elt \<mapsto> dict_get b2j elt [] @ [i])) (Suc i) rest"

definition chain_b :: "pystr list \<Rightarrow> (pystr \<rightharpoonup> nat list)" where
  "chain_b b =
     (let b2j = chain_loop Map.empty 0 b; n = length b
      in if 200 \<le> n
         then (let ntest = n div 100 + 1
               in (\<lambda>elt. case b2j elt of
                            None \<Rightarrow> None
                          | Some idxs \<Rightarrow> if ntest < length idxs then None else Some idxs))
         else b2j)"

text \<open>\<^verbatim>\<open>find_longest_match\<close>.  \<open>row_loop\<close> is the inner loop over the indices \<open>j\<close> of the
  line \<open>a[i]\<close>, with its \<^verbatim>\<open>continue\<close> and \<^verbatim>\<open>break\<close>, on the state
  \<open>(newj2len, besti, bestj, bestsize)\<close>; the lookup \<^verbatim>\<open>j2len.get(j-1, 0)\<close> finds nothing
  for \<open>j = 0\<close>.  \<open>rows_loop\<close> is the outer loop over \<open>i\<close>.  The two loops that follow
  extend the match on either side; the two loops of the source that extend it by junk
  lines never run, since no line is junk.\<close>

type_synonym match = "nat \<times> nat \<times> nat"

fun row_loop ::
  "(nat \<rightharpoonup> nat) \<Rightarrow> nat \<Rightarrow> nat \<Rightarrow> nat \<Rightarrow> nat list \<Rightarrow> (nat \<rightharpoonup> nat) \<times> match \<Rightarrow>
   (nat \<rightharpoonup> nat) \<times> match" where
  "row_loop j2len i blo bhi [] st = st"
| "row_loop j2len i blo bhi (j # js) (newj2len, besti, bestj, bestsize) =
     (if j < blo then row_loop j2len i blo bhi js (newj2len, besti, bestj, bestsize)
      else if bhi \<le> j then (newj2len, besti, bestj, bestsize)
      else (let k = (if j = 0 then 0 else dict_get j2len (j - 1) 0) + 1;
                newj2len = newj2len(j \<mapsto> k)
            in if bestsize < k
               then row_loop j2len i blo bhi js (newj2len, Suc i - k, Suc j - k, k)
               else row_loop j2len i blo bhi js (newj2len, besti, bestj, bestsize)))"

fun rows_loop ::
  "pystr list \<Rightarrow> (pystr \<rightharpoonup> nat list) \<Rightarrow> nat \<Rightarrow> nat \<Rightarrow> nat list \<Rightarrow> (nat \<rightharpoonup> nat) \<times> match \<Rightarrow>
   (nat \<rightharpoonup> nat) \<times> match" where
  "rows_loop a b2j blo bhi [] st = st"
| "rows_loop a b2j blo bhi (i # rest) (j2len, best) =
     rows_loop a b2j blo bhi rest
       (row_loop j2len i blo bhi (dict_get b2j (a ! i) []) (Map.empty, best))"

fun extend_left :: "pystr list \<Rightarrow> pystr list \<Rightarrow> nat \<Rightarrow> nat \<Rightarrow> match \<Rightarrow> match" where
  "extend_left a b alo blo (besti, bestj, bestsize) =
     (if alo < besti \<and> blo < bestj \<and> a ! (besti - 1) = b ! (bestj - 1)
      then extend_left a b alo blo (besti - 1, bestj - 1, bestsize + 1)
      else (besti, bestj, bestsize))"

function extend_right :: "pystr list \<Rightarrow> pystr list \<Rightarrow> nat \<Rightarrow> nat \<Rightarrow> match \<Rightarrow> match" where
  "extend_right a b ahi bhi (besti, bestj, bestsize) =
     (if besti + bestsize < ahi \<and> bestj + bestsize < bhi \<and>
         a ! (besti + bestsize) = b ! (bestj + bestsize)
      then extend_right a b ahi bhi (besti, bestj, bestsize + 1)
      else (besti, bestj, bestsize))"
  by pat_completeness auto
termination
  by (relation "measure (\<lambda>(a, b, ahi, bhi, besti, bestj, bestsize). ahi - (besti + bestsize))")
     auto

declare extend_left.simps [simp del]
declare extend_right.simps [simp del]

definition find_longest_match ::
  "pystr list \<Rightarrow> pystr list \<Rightarrow> (pystr \<rightharpoonup> nat list) \<Rightarrow> nat \<Rightarrow> nat \<Rightarrow> nat \<Rightarrow> nat \<Rightarrow> match" where
  "find_longest_match a b b2j alo ahi blo bhi =
     (let (j2len, best) = rows_loop a b2j blo bhi [alo..<ahi] (Map.empty, (alo, blo, 0));
          best = extend_left a b alo blo best;
          best = extend_right a b ahi bhi best
      in best)"

text \<open>\<^verbatim>\<open>get_matching_blocks\<close>.  The work list \<^verbatim>\<open>queue\<close> is a stack whose top is the head
  of the list.  The loop runs while the stack is not empty; a run that does not end has
  the value \<open>None\<close>.  The blocks found are sorted and adjacent ones are merged.\<close>

partial_function (option) blocks_loop ::
  "pystr list \<Rightarrow> pystr list \<Rightarrow> (pystr \<rightharpoonup> nat list) \<Rightarrow> (nat \<times> nat \<times> nat \<times> nat) list \<Rightarrow>
   match list \<Rightarrow> match list option" where
  "blocks_loop a b b2j queue matching_blocks =
     (case queue of
        [] \<Rightarrow> Some matching_blocks
      | (alo, ahi, blo, bhi) # queue \<Rightarrow>
          (case find_longest_match a b b2j alo ahi blo bhi of
             (i, j, k) \<Rightarrow>
               if k \<noteq> 0
               then blocks_loop a b b2j
                      ((if i + k < ahi \<and> j + k < bhi then [(i + k, ahi, j + k, bhi)] else []) @
                       (if alo < i \<and> blo < j then [(alo, i, blo, j)] else []) @ queue)
                      (matching_blocks @ [(i, j, k)])
               else blocks_loop a b b2j queue matching_blocks))"

declare blocks_loop.simps [code]

fun collapse_loop :: "match list \<Rightarrow> match \<times> match list \<Rightarrow> match \<times> match list" where
  "collapse_loop [] st = st"
| "collapse_loop ((i2, j2, k2) # rest) ((i1, j1, k1), non_adjacent) =
     (if i1 + k1 = i2 \<and> j1 + k1 = j2
      then collapse_loop rest ((i1, j1, k1 + k2), non_adjacent)
      else collapse_loop rest
             ((i2, j2, k2), (if k1 \<noteq> 0 then non_adjacent @ [(i1, j1, k1)] else non_adjacent)))"

definition get_matching_blocks :: "pystr list \<Rightarrow> pystr list \<Rightarrow> match list option" where
  "get_matching_blocks a b =
     (case blocks_loop a b (chain_b b) [(0, length a, 0, length b)] [] of
        None \<Rightarrow> None
      | Some matching_blocks \<Rightarrow>
          (case collapse_loop (sort matching_blocks) ((0, 0, 0), []) of
             ((i1, j1, k1), non_adjacent) \<Rightarrow>
               Some ((if k1 \<noteq> 0 then non_adjacent @ [(i1, j1, k1)] else non_adjacent) @
                     [(length a, length b, 0)])))"

text \<open>\<^verbatim>\<open>get_opcodes\<close> and \<^verbatim>\<open>get_grouped_opcodes\<close> for three lines of context.\<close>

datatype tag = Replace | Delete | Insert | Equal

type_synonym opcode = "tag \<times> nat \<times> nat \<times> nat \<times> nat"

fun opcodes_loop :: "match list \<Rightarrow> nat \<times> nat \<times> opcode list \<Rightarrow> opcode list" where
  "opcodes_loop [] (i, j, answer) = answer"
| "opcodes_loop ((ai, bj, sz) # rest) (i, j, answer) =
     (let answer = (if i < ai \<and> j < bj then answer @ [(Replace, i, ai, j, bj)]
                    else if i < ai then answer @ [(Delete, i, ai, j, bj)]
                    else if j < bj then answer @ [(Insert, i, ai, j, bj)]
                    else answer);
          i = ai + sz; j = bj + sz;
          answer = (if sz \<noteq> 0 then answer @ [(Equal, ai, i, bj, j)] else answer)
      in opcodes_loop rest (i, j, answer))"

definition get_opcodes :: "pystr list \<Rightarrow> pystr list \<Rightarrow> opcode list option" where
  "get_opcodes a b = map_option (\<lambda>blocks. opcodes_loop blocks (0, 0, [])) (get_matching_blocks a b)"

fun group_loop :: "opcode list \<Rightarrow> opcode list \<times> opcode list list \<Rightarrow> opcode list \<times> opcode list list" where
  "group_loop [] st = st"
| "group_loop ((tg, i1, i2, j1, j2) # rest) (grp, groups) =
     (if tg = Equal \<and> 6 < i2 - i1
      then group_loop rest
             ([(tg, max i1 (i2 - 3), i2, max j1 (j2 - 3), j2)],
              groups @ [grp @ [(tg, i1, min i2 (i1 + 3), j1, min j2 (j1 + 3))]])
      else group_loop rest (grp @ [(tg, i1, i2, j1, j2)], groups))"

definition trim_first :: "opcode list \<Rightarrow> opcode list" where
  "trim_first codes =
     (case codes of
        (Equal, i1, i2, j1, j2) # rest \<Rightarrow> (Equal, max i1 (i2 - 3), i2, max j1 (j2 - 3), j2) # rest
      | _ \<Rightarrow> codes)"

definition trim_last :: "opcode list \<Rightarrow> opcode list" where
  "trim_last codes =
     (case last codes of
        (Equal, i1, i2, j1, j2) \<Rightarrow>
          butlast codes @ [(Equal, i1, min i2 (i1 + 3), j1, min j2 (j1 + 3))]
      | _ \<Rightarrow> codes)"

definition get_grouped_opcodes :: "pystr list \<Rightarrow> pystr list \<Rightarrow> opcode list list option" where
  "get_grouped_opcodes a b =
     (case get_opcodes a b of
        None \<Rightarrow> None
      | Some codes \<Rightarrow>
          (let codes = (if codes = [] then [(Equal, 0, 1, 0, 1)] else codes);
               codes = trim_first codes;
               codes = trim_last codes
           in case group_loop codes ([], []) of
                (grp, groups) \<Rightarrow>
                  Some (if grp \<noteq> [] \<and> \<not> (length grp = 1 \<and> fst (hd grp) = Equal)
                        then groups @ [grp] else groups)))"

text \<open>\<^verbatim>\<open>unified_diff\<close>: the two header lines before the first group, then for every group
  its range line and its lines.  A group is never empty.\<close>

definition format_range_unified :: "nat \<Rightarrow> nat \<Rightarrow> pystr" where
  "format_range_unified start stop =
     (let beginning = start + 1; len = stop - start
      in if len = 1 then str_nat beginning
         else str_nat (if len = 0 then beginning - 1 else beginning) @ ascii '','' @ str_nat len)"

definition slice :: "'a list \<Rightarrow> nat \<Rightarrow> nat \<Rightarrow> 'a list" where
  "slice xs lo hi = take (hi - lo) (drop lo xs)"

fun opcode_lines :: "pystr list \<Rightarrow> pystr list \<Rightarrow> opcode \<Rightarrow> pystr list" where
  "opcode_lines a b (tg, i1, i2, j1, j2) =
     (if tg = Equal then map (\<lambda>line. ascii '' '' @ line) (slice a i1 i2)
      else (if tg = Replace \<or> tg = Delete
            then map (\<lambda>line. ascii ''-'' @ line) (slice a i1 i2) else []) @
           (if tg = Replace \<or> tg = Insert
            then map (\<lambda>line. ascii ''+'' @ line) (slice b j1 j2) else []))"

fun diff_loop :: "pystr list \<Rightarrow> pystr list \<Rightarrow> opcode list list \<Rightarrow> bool \<times> pystr list \<Rightarrow> pystr list" where
  "diff_loop a b [] (started, out) = out"
| "diff_loop a b (grp # groups) (started, out) =
     (let out = (if \<not> started then out @ [ascii ''--- history'', ascii ''+++ current''] else out);
          (t1, f1, f2, f3, f4) = hd grp;
          (t2, l1, l2, l3, l4) = last grp;
          file1_range = format_range_unified f1 l2;
          file2_range = format_range_unified f3 l4;
          out = out @ [ascii ''@@ -'' @ file1_range @ ascii '' +'' @ file2_range @ ascii '' @@''];
          out = out @ concat (map (opcode_lines a b) grp)
      in diff_loop a b groups (True, out))"

definition unified_diff :: "pystr list \<Rightarrow> pystr list \<Rightarrow> pystr list option" where
  "unified_diff a b = map_option (\<lambda>groups. diff_loop a b groups (False, [])) (get_grouped_opcodes a b)"

text \<open>\<^verbatim>\<open>compute_diff\<close>: the loop that sorts the lines of the diff into added, removed and
  changed lines.\<close>

fun classify_loop ::
  "pystr list \<Rightarrow> pystr list \<times> pystr list \<times> pystr list \<Rightarrow> pystr list \<times> pystr list \<times> pystr list" where
  "classify_loop [] st = st"
| "classify_loop (line # rest) (added, removed, changed) =
     (if startswith line (ascii ''+++'') \<or> startswith line (ascii ''---'') \<or>
         startswith line (ascii ''@@'')
      then classify_loop rest (added, removed, changed @ [line])
      else if startswith line (ascii ''+'')
      then classify_loop rest (added @ [drop 1 line], removed, changed @ [line])
      else if startswith line (ascii ''-'')
      then classify_loop rest (added, removed @ [drop 1 line], changed @ [line])
      else classify_loop rest (added, removed, changed))"

definition compute_diff :: "pystr \<Rightarrow> pystr \<Rightarrow> DiffResult option" where
  "compute_diff current_code history_code =
     (let package_path = extract_package_path current_code;
          current_lines = splitlines [] current_code;
          history_lines = splitlines [] history_code
      in case unified_diff history_lines current_lines of
           None \<Rightarrow> None
         | Some diff \<Rightarrow>
             (case classify_loop diff ([], [], []) of
                (added, removed, changed) \<Rightarrow>
                  Some \<lparr>package_path = package_path, added_lines = added,
                        removed_lines = removed, changed_lines = changed\<rparr>))"

subsection \<open>Notions for identical inputs\<close>

text \<open>The indices of a line from position \<open>i\<close> on; the number of consecutive lines up to
  index \<open>i\<close> that are keys of the dictionary; and the invariants of the two loops of
  \<open>find_longest_match\<close> when both sequences are the same: every recorded length is
  bounded by that number, on the diagonal it is that number, and the best match lies on
  the diagonal.\<close>

fun positions :: "nat \<Rightarrow> pystr list \<Rightarrow> pystr \<Rightarrow> nat list" where
  "positions i [] x = []"
| "positions i (e # rest) x =
     (if e = x then i # positions (Suc i) rest x else positions (Suc i) rest x)"

fun diag_run :: "(pystr \<rightharpoonup> nat list) \<Rightarrow> pystr list \<Rightarrow> nat \<Rightarrow> nat" where
  "diag_run b2j a 0 = (if b2j (a ! 0) \<noteq> None then 1 else 0)"
| "diag_run b2j a (Suc i) = (if b2j (a ! Suc i) \<noteq> None then diag_run b2j a i + 1 else 0)"

definition row_inv ::
  "(pystr \<rightharpoonup> nat list) \<Rightarrow> pystr list \<Rightarrow> nat \<Rightarrow> bool \<Rightarrow> (nat \<rightharpoonup> nat) \<times> match \<Rightarrow> bool" where
  "row_inv b2j a i dn st =
     (case st of (nj, bi, bj, bs) \<Rightarrow>
        (\<forall>j k. nj j = Some k \<longrightarrow> k \<le> diag_run b2j a j \<and> k \<le> diag_run b2j a i)
        \<and> (dn \<longrightarrow> nj i = Some (diag_run b2j a i) \<and> diag_run b2j a i \<le> bs)
        \<and> bi = bj \<and> bi + bs \<le> length a \<and> (\<forall>c<i. diag_run b2j a c \<le> bs))"

definition prev_inv ::
  "(pystr \<rightharpoonup> nat list) \<Rightarrow> pystr list \<Rightarrow> nat \<Rightarrow> (nat \<rightharpoonup> nat) \<Rightarrow> bool" where
  "prev_inv b2j a i j2len =
     ((\<forall>j k. j2len j = Some k \<longrightarrow>
          0 < i \<and> k \<le> diag_run b2j a j \<and> k \<le> diag_run b2j a (i - 1))
      \<and> (0 < i \<and> b2j (a ! (i - 1)) \<noteq> None \<longrightarrow>
           j2len (i - 1) = Some (diag_run b2j a (i - 1))))"

subsection \<open>The summary, stated without the loops\<close>

text \<open>The content lines of one side: the first ten lines, each without its trailing
  whitespace and behind the prefix.  The block of a side: nothing for an empty side, else
  the label, the content lines and, for more than ten lines, the line that counts the
  rest.  The section of one file pair, and the three lines at the top.\<close>

definition content_lines :: "pystr \<Rightarrow> pystr list \<Rightarrow> pystr list" where
  "content_lines prefix side = map (\<lambda>line. prefix @ rstrip line) (take 10 side)"

definition side_block :: "pystr \<Rightarrow> pystr \<Rightarrow> pystr list \<Rightarrow> pystr list" where
  "side_block label prefix side =
     (if side = [] then []
      else label # content_lines prefix side @
           (if 10 < length side then [text_more @ str_nat (length side - 10) @ text_lines]
            else []))"

definition diff_section :: "nat \<Rightarrow> DiffResult \<Rightarrow> pystr list" where
  "diff_section i diff =
     [text_file @ str_nat i @ ascii '': '' @ package_path diff,
      text_added @ str_nat (length (added_lines diff)) @ text_removed @
        str_nat (length (removed_lines diff)) @ text_lines] @
     side_block text_added_content (ascii ''    + '') (added_lines diff) @
     side_block text_removed_content (ascii ''    - '') (removed_lines diff) @ [[]]"

definition summary_header :: "AnalysisResult \<Rightarrow> pystr list" where
  "summary_header result =
     [text_detected @ str_nat (length (diffs result)) @ text_files_changed,
      text_total_added @ str_int (total_added result) @ text_total_removed @
        str_int (total_removed result) @ text_lines,
      []]"

text \<open>The number that a text of decimal digits denotes.\<close>

definition nat_of_digits :: "pystr \<Rightarrow> nat" where
  "nat_of_digits s = foldl (\<lambda>a c. 10 * a + (c - 48)) 0 s"

section \<open>Scoring (scoring\_model.py)\<close>

text \<open>Floats are modelled as exact rationals: the weights are \<open>2/5\<close>, \<open>3/10\<close>, \<open>1/5\<close> and
  \<open>1/10\<close>, division is exact, and rounding is as follows.\<close>

text \<open>\<^verbatim>\<open>round(x, n)\<close> on an exact value: to the nearest multiple of \<open>10^-n\<close>, a tie to
  the even one.\<close>

definition round_half_even :: "rat \<Rightarrow> int" where
  "round_half_even x =
     (let f = \<lfloor>x\<rfloor>; r = x - of_int f in
      if r < 1 / 2 then f else if 1 / 2 < r then f + 1 else if even f then f else f + 1)"

definition py_round :: "rat \<Rightarrow> nat \<Rightarrow> rat" where
  "py_round x n = of_int (round_half_even (x * 10 ^ n)) / 10 ^ n"

definition weight_completeness :: rat where "weight_completeness = 3 / 10"

text \<open>A dimension score; the explanatory text \<^verbatim>\<open>details\<close> of the source, a formatted
  message that nothing reads, is left out.\<close>

record DimensionScore =
  dimension :: pystr
  score :: rat
  weight :: rat
  weighted_score :: rat

definition name_completeness :: pystr where
  "name_completeness = [27493, 39588, 23436, 25972, 24615]"
definition word_step :: pystr where
  "word_step = [27493, 39588]"

definition action_words :: "pystr list" where
  "action_words =
     [[36755, 20837], [28857, 20987], [36873, 25321], [39564, 35777], [26816, 26597],
      [25171, 24320], [25552, 20132], [30830, 35748], [20462, 25913], [21024, 38500]]"




text \<open>The two patterns of \<^verbatim>\<open>_count_steps\<close>.  \<open>isdecimal\<close> is the class \<^verbatim>\<open>\d\<close>, the decimal
  digits of the Unicode table of the Python runtime.  A match is reported by its length.

  The first pattern: one or more digits, as many as possible, and one of the three marks
  full stop, ideographic comma (U+3001) and closing parenthesis;
  \<open>digits_then_mark\<close> is the part after the first digit and gives a digit back when the
  rest does not match.\<close>

definition is_mark :: "nat \<Rightarrow> bool" where
  "is_mark c \<longleftrightarrow> c = 0x2E \<or> c = 0x3001 \<or> c = 0x29"

fun digits_then_mark :: "(nat \<Rightarrow> bool) \<Rightarrow> pystr \<Rightarrow> nat option" where
  "digits_then_mark isdecimal [] = None"
| "digits_then_mark isdecimal (c # cs) =
     (if isdecimal c
      then (case digits_then_mark isdecimal cs of
              Some n \<Rightarrow> Some (Suc n)
            | None \<Rightarrow> (if is_mark c then Some 1 else None))
      else if is_mark c then Some 1 else None)"

definition match_numbered :: "(nat \<Rightarrow> bool) \<Rightarrow> pystr \<Rightarrow> nat option" where
  "match_numbered isdecimal s =
     (case s of
        [] \<Rightarrow> None
      | c # cs \<Rightarrow> (if isdecimal c then map_option Suc (digits_then_mark isdecimal cs)
                   else None))"

text \<open>The pattern of the word "step" followed by one or more digits, as many as possible.\<close>

definition match_step_word :: "(nat \<Rightarrow> bool) \<Rightarrow> pystr \<Rightarrow> nat option" where
  "match_step_word isdecimal s =
     (if startswith s word_step \<and> takeWhile isdecimal (drop (length word_step) s) \<noteq> []
      then Some (length word_step + length (takeWhile isdecimal (drop (length word_step) s)))
      else None)"

text \<open>\<^verbatim>\<open>len(re.findall(pattern, text))\<close>: the matches are taken from left to right and do
  not overlap; \<open>skip\<close> counts the characters still inside the last match.\<close>

fun findall_count :: "(pystr \<Rightarrow> nat option) \<Rightarrow> nat \<Rightarrow> pystr \<Rightarrow> nat" where
  "findall_count pattern skip [] = 0"
| "findall_count pattern (Suc k) (c # cs) = findall_count pattern k cs"
| "findall_count pattern 0 (c # cs) =
     (case pattern (c # cs) of
        Some n \<Rightarrow> Suc (findall_count pattern (n - 1) cs)
      | None \<Rightarrow> findall_count pattern 0 cs)"

definition count_steps :: "(nat \<Rightarrow> bool) \<Rightarrow> pystr \<Rightarrow> nat" where
  "count_steps isdecimal steps_text =
     (let count = max (max 0 (findall_count (match_numbered isdecimal) 0 steps_text))
                      (findall_count (match_step_word isdecimal) 0 steps_text)
      in if count = 0
         then (let parts = filter (\<lambda>p. strip p \<noteq> [])
                             (split_on 0x0A []
                                (replace_char 0xFF1B 0x0A (replace_char 0x3B 0x0A steps_text)))
               in length parts)
         else count)"

text \<open>A test case of the scoring functions is a row of the uploaded table; here the English
  header is looked up first.\<close>

definition steps_of :: "(pystr \<rightharpoonup> pystr) \<Rightarrow> pystr" where
  "steps_of tc =
     dict_get tc (ascii ''test_steps'') (dict_get tc [27979, 35797, 27493, 39588] [])"



fun completeness_loop :: "(nat \<Rightarrow> bool) \<Rightarrow> rat \<Rightarrow> (pystr \<rightharpoonup> pystr) list \<Rightarrow> rat" where
  "completeness_loop isdecimal total_sum [] = total_sum"
| "completeness_loop isdecimal total_sum (tc # rest) =
     (let steps = steps_of tc;
          case_score =
            (if steps \<noteq> []
             then (let step_count = count_steps isdecimal steps;
                       has_action = list_ex (\<lambda>w. contains steps w) action_words
                   in 30 + (if 3 \<le> step_count then 40 else if 2 \<le> step_count then 25
                            else if 1 \<le> step_count then 10 else 0)
                         + (if has_action then 30 else 0))
             else 0)
      in completeness_loop isdecimal (total_sum + case_score) rest)"

definition score_completeness :: "(nat \<Rightarrow> bool) \<Rightarrow> (pystr \<rightharpoonup> pystr) list \<Rightarrow> DimensionScore" where
  "score_completeness isdecimal test_cases =
     (if test_cases = []
      then \<lparr>dimension = name_completeness, score = 0, weight = weight_completeness,
            weighted_score = 0\<rparr>
      else (let total = completeness_loop isdecimal 0 test_cases;
                avg_score = total / of_nat (length test_cases);
                weighted = avg_score * weight_completeness
            in \<lparr>dimension = name_completeness, score = py_round avg_score 1,
                 weight = weight_completeness, weighted_score = py_round weighted 2\<rparr>))"








record ScoreResult =
  total_score :: rat
  dimensions :: "DimensionScore list"
  grade :: pystr
  summary :: pystr
  error :: "pystr option"


section \<open>Coverage analysis (coverage\_analyzer.py)\<close>

record MappingEntry =
  package_name :: pystr
  class_name :: pystr
  method_name :: pystr
  description :: pystr

text \<open>The property \<^verbatim>\<open>MappingEntry.full_qualified_name\<close>.\<close>

definition full_qualified_name :: "MappingEntry \<Rightarrow> pystr" where
  "full_qualified_name e =
     MappingEntry.package_name e @ ascii ''.'' @ MappingEntry.class_name e @ ascii ''.'' @
     MappingEntry.method_name e"

record TestCase =
  test_id :: pystr
  test_function :: pystr
  test_steps :: pystr
  expected_result :: pystr

text \<open>One element of \<^verbatim>\<open>coverage_details\<close>; the keys \<^verbatim>\<open>"method"\<close> and \<^verbatim>\<open>"description"\<close>
  of the source dictionary are the fields \<open>detail_method\<close> and \<open>detail_description\<close>.\<close>

record CoverageDetail =
  detail_method :: pystr
  detail_description :: pystr
  is_covered :: bool
  matched_tests :: "pystr list"

text \<open>The rate is a float, an exact rational here.\<close>

record CoverageResult =
  total_changed_methods :: nat
  covered_methods :: "pystr list"
  uncovered_methods :: "pystr list"
  coverage_rate :: rat
  coverage_details :: "CoverageDetail list"
  error :: "pystr option"

text \<open>The literal of the "no code changes detected" error (nine Chinese characters).\<close>

definition no_changes_message :: pystr where
  "no_changes_message = [27809, 26377, 26816, 27979, 21040, 20195, 30721, 25913, 21160]"

text \<open>The placeholder of a detail record without description ("no mapping description").\<close>

definition no_mapping_description :: pystr where
  "no_mapping_description = [26080, 26144, 23556, 25551, 36848]"

text \<open>\<^verbatim>\<open>_fuzzy_match\<close>: the keywords of the description, at least half of them (at least
  one) found in the test function.\<close>

definition fuzzy_match :: "pystr \<Rightarrow> pystr \<Rightarrow> bool" where
  "fuzzy_match desc test_func =
     (let keywords = split (replace_char 0x2F 0x20 (replace_char 0xFF0C 0x20
                        (replace_char 0x2C 0x20 desc)))
      in if keywords = [] then False
         else let match_count = length (filter (\<lambda>kw. contains test_func kw) keywords)
              in max 1 (length keywords div 2) \<le> match_count)"

text \<open>The dictionary \<^verbatim>\<open>mapping_index\<close>: a later entry overwrites an earlier one of the
  same qualified name.\<close>

fun build_mapping_index :: "(pystr \<rightharpoonup> pystr) \<Rightarrow> MappingEntry list \<Rightarrow> (pystr \<rightharpoonup> pystr)" where
  "build_mapping_index idx [] = idx"
| "build_mapping_index idx (entry # entries) =
     build_mapping_index (idx(full_qualified_name entry \<mapsto> description entry)) entries"

text \<open>The inner loop over the test cases, on the pair \<open>(is_covered, matched_tests)\<close>.
  \<open>lower\<close> is \<^verbatim>\<open>str.lower\<close>, whose Unicode case table is not part of the repository.\<close>

fun match_test_cases ::
  "(pystr \<Rightarrow> pystr) \<Rightarrow> pystr \<Rightarrow> TestCase list \<Rightarrow> bool \<times> pystr list \<Rightarrow> bool \<times> pystr list" where
  "match_test_cases lower desc_lower [] st = st"
| "match_test_cases lower desc_lower (tc # tcs) (cov, matched) =
     (let func_lower = lower (test_function tc) in
      if contains func_lower desc_lower \<or> contains desc_lower func_lower \<or>
         fuzzy_match desc_lower func_lower
      then match_test_cases lower desc_lower tcs (True, matched @ [test_id tc])
      else match_test_cases lower desc_lower tcs (cov, matched))"

text \<open>The loop over the changed methods, on the triple \<open>(covered, uncovered, details)\<close>.
  A changed method is a dictionary with the keys \<^verbatim>\<open>package_name\<close>, \<^verbatim>\<open>class_name\<close> and
  \<^verbatim>\<open>method_name\<close>.\<close>

definition method_full_name :: "(pystr \<rightharpoonup> pystr) \<Rightarrow> pystr" where
  "method_full_name m =
     (let pkg = dict_get m (ascii ''package_name'') [];
          cls = dict_get m (ascii ''class_name'') [];
          mtd = dict_get m (ascii ''method_name'') []
      in pkg @ ascii ''.'' @ cls @ ascii ''.'' @ mtd)"

fun coverage_loop ::
  "(pystr \<Rightarrow> pystr) \<Rightarrow> (pystr \<rightharpoonup> pystr) \<Rightarrow> TestCase list \<Rightarrow> (pystr \<rightharpoonup> pystr) list \<Rightarrow>
   pystr list \<times> pystr list \<times> CoverageDetail list \<Rightarrow>
   pystr list \<times> pystr list \<times> CoverageDetail list" where
  "coverage_loop lower mapping_index test_cases [] st = st"
| "coverage_loop lower mapping_index test_cases (m # ms) (covered, uncovered, details) =
     (let full_name = method_full_name m;
          description = dict_get mapping_index full_name [];
          (cov, matched) =
             (if description \<noteq> []
              then match_test_cases lower (lower description) test_cases (False, [])
              else (False, []));
          detail = \<lparr>detail_method = full_name,
                    detail_description =
                      (if description \<noteq> [] then description else no_mapping_description),
                    is_covered = cov, matched_tests = matched\<rparr>
      in if cov
         then coverage_loop lower mapping_index test_cases ms
                (covered @ [full_name], uncovered, details @ [detail])
         else coverage_loop lower mapping_index test_cases ms
                (covered, uncovered @ [full_name], details @ [detail]))"

definition analyze_coverage ::
  "(pystr \<Rightarrow> pystr) \<Rightarrow> (pystr \<rightharpoonup> pystr) list \<Rightarrow> MappingEntry list \<Rightarrow> TestCase list \<Rightarrow>
   CoverageResult" where
  "analyze_coverage lower changed_methods mapping_entries test_cases =
     (if changed_methods = []
      then \<lparr>total_changed_methods = 0, covered_methods = [], uncovered_methods = [],
            coverage_rate = 0, coverage_details = [], error = Some no_changes_message\<rparr>
      else
        let mapping_index = build_mapping_index Map.empty mapping_entries;
            (covered, uncovered, details) =
               coverage_loop lower mapping_index test_cases changed_methods ([], [], []);
            total = length changed_methods;
            rate = (if 0 < total then of_nat (length covered) / of_nat total else 0)
        in \<lparr>total_changed_methods = total, covered_methods = covered,
             uncovered_methods = uncovered, coverage_rate = py_round rate 4,
             coverage_details = details, error = None\<rparr>)"

text \<open>A row of an uploaded table is a dictionary from the header of a column to the text of
  the cell (the rows of \<^verbatim>\<open>csv.DictReader\<close> and of \<^verbatim>\<open>parse_excel\<close>); \<^verbatim>\<open>str(...)\<close> of a
  text is the text itself.  The headers exist in a Chinese and in an English naming.\<close>

type_synonym row = "pystr \<rightharpoonup> pystr"














subsection \<open>The judgement of one method, stated without the loops\<close>

text \<open>The separators of a description: comma, fullwidth comma, slash and whitespace; its
  keywords are the maximal runs of other characters.\<close>

definition is_separator :: "nat \<Rightarrow> bool" where
  "is_separator c \<longleftrightarrow> c = 0x2C \<or> c = 0xFF0C \<or> c = 0x2F \<or> isspace c"

definition description_keywords :: "pystr \<Rightarrow> pystr list" where
  "description_keywords d = tokens is_separator [] d"

text \<open>At least half of the keywords, rounded down and at least one, occur in the text.\<close>

definition keyword_overlap :: "pystr \<Rightarrow> pystr \<Rightarrow> bool" where
  "keyword_overlap d f =
     (let kws = description_keywords d
      in max 1 (length kws div 2) \<le> length (filter (\<lambda>kw. contains f kw) kws))"

text \<open>A description matches a test case: containment of the lower-cased texts in one
  direction, in the other direction, or the overlap of keywords.\<close>

definition description_matches :: "(pystr \<Rightarrow> pystr) \<Rightarrow> pystr \<Rightarrow> TestCase \<Rightarrow> bool" where
  "description_matches lower d tc =
     (let dl = lower d; fl = lower (test_function tc)
      in contains fl dl \<or> contains dl fl \<or> keyword_overlap dl fl)"

text \<open>A qualified name is covered: it has a non-empty description in the index and some
  test case matches that description.\<close>

definition name_covered ::
  "(pystr \<Rightarrow> pystr) \<Rightarrow> (pystr \<rightharpoonup> pystr) \<Rightarrow> TestCase list \<Rightarrow> pystr \<Rightarrow> bool" where
  "name_covered lower idx tcs n =
     (let d = dict_get idx n [] in d \<noteq> [] \<and> list_ex (description_matches lower d) tcs)"

definition name_detail ::
  "(pystr \<Rightarrow> pystr) \<Rightarrow> (pystr \<rightharpoonup> pystr) \<Rightarrow> TestCase list \<Rightarrow> pystr \<Rightarrow> CoverageDetail" where
  "name_detail lower idx tcs n =
     (let d = dict_get idx n []
      in \<lparr>detail_method = n,
           detail_description = (if d \<noteq> [] then d else no_mapping_description),
           is_covered = name_covered lower idx tcs n,
           matched_tests =
             (if d \<noteq> [] then map test_id (filter (description_matches lower d) tcs) else [])\<rparr>)"

subsection \<open>Concrete inputs\<close>

text \<open>\<^verbatim>\<open>str.lower\<close> restricted to the ASCII letters, as a concrete instance of \<open>lower\<close>.\<close>

definition ascii_lower :: "pystr \<Rightarrow> pystr" where
  "ascii_lower s = map (\<lambda>c. if 0x41 \<le> c \<and> c \<le> 0x5A then c + 0x20 else c) s"

text \<open>The scenario of the test-suite: methods of \<^verbatim>\<open>com.example.user.UserService\<close>, one
  mapping entry for \<^verbatim>\<open>createUser\<close> and one test case.\<close>

definition example_method :: "string \<Rightarrow> (pystr \<rightharpoonup> pystr)" where
  "example_method name =
     [ascii ''package_name'' \<mapsto> ascii ''com.example.user'',
      ascii ''class_name'' \<mapsto> ascii ''UserService'',
      ascii ''method_name'' \<mapsto> ascii name]"

definition example_entry :: MappingEntry where
  "example_entry =
     \<lparr>package_name = ascii ''com.example.user'', class_name = ascii ''UserService'',
      method_name = ascii ''createUser'', description = ascii ''Create User''\<rparr>"

definition example_test :: TestCase where
  "example_test =
     \<lparr>test_id = ascii ''TC001'', test_function = ascii ''create user'',
      test_steps = ascii ''1. open'', expected_result = ascii ''ok''\<rparr>"



text \<open>Two versions of a class for the change detection: the second adds a parameter to
  \<^verbatim>\<open>createUser\<close> and a method \<^verbatim>\<open>deleteUser\<close>; \<open>example_parse\<close> is a parser that knows
  the two texts \<^verbatim>\<open>v1\<close> and \<^verbatim>\<open>v2\<close>.\<close>

definition example_method_info :: "string \<Rightarrow> string list \<Rightarrow> MethodInfo" where
  "example_method_info name params =
     \<lparr>MethodInfo.package_name = ascii ''com.example.user'',
      MethodInfo.class_name = ascii ''UserService'',
      MethodInfo.method_name = ascii name, modifiers = [ascii ''public''],
      return_type = None, parameters = map ascii params\<rparr>"

definition example_class :: "MethodInfo list \<Rightarrow> ClassInfo" where
  "example_class ms =
     \<lparr>ClassInfo.package_name = ascii ''com.example.user'',
      ClassInfo.class_name = ascii ''UserService'', methods = ms\<rparr>"

definition example_parse :: "pystr \<Rightarrow> ParseResult" where
  "example_parse code =
     (if code = ascii ''v1''
      then \<lparr>classes = [example_class [example_method_info ''createUser'' [''String''],
                                       example_method_info ''updateUser'' [''String'']]],
            errors = []\<rparr>
      else if code = ascii ''v2''
      then \<lparr>classes = [example_class [example_method_info ''createUser'' [''String'', ''int''],
                                       example_method_info ''updateUser'' [''String''],
                                       example_method_info ''deleteUser'' [''String'']]],
            errors = []\<rparr>
      else \<lparr>classes = [], errors = [ascii ''syntax error'']\<rparr>)"

text \<open>A file pair with twelve added lines and one removed line.\<close>

definition example_diff :: DiffResult where
  "example_diff =
     \<lparr>package_path = ascii ''com.example.user'',
      added_lines = map ascii [''a1'', ''a2'', ''a3'', ''a4'', ''a5'', ''a6'', ''a7'', ''a8'',
                               ''a9'', ''a10'', ''a11'', ''a12  ''],
      removed_lines = [ascii ''old line  ''],
      changed_lines = []\<rparr>"

definition example_analysis :: AnalysisResult where
  "example_analysis =
     \<lparr>diffs = [example_diff], total_added = 12, total_removed = 1,
      AnalysisResult.error = None\<rparr>"

text \<open>The ASCII digits as an instance of \<open>isdecimal\<close>, and the test case of the test-suite
  with three numbered steps.\<close>

definition ascii_decimal :: "nat \<Rightarrow> bool" where
  "ascii_decimal c \<longleftrightarrow> 0x30 \<le> c \<and> c \<le> 0x39"

definition example_steps_row :: "pystr \<rightharpoonup> pystr" where
  "example_steps_row =
     [[27979, 35797, 27493, 39588] \<mapsto>
        ascii ''1. '' @ [36755, 20837, 29992, 25143, 21517] @ ascii '' 2. '' @
        [28857, 20987, 21019, 24314, 25353, 38062] @ ascii '' 3. '' @
        [26816, 26597, 36820, 22238, 32467, 26524]]"

section \<open>Properties of the coverage analysis\<close>

subsection \<open>Strings\<close>

text \<open>\<open>contains s t\<close> holds exactly when \<open>t\<close> is a contiguous part of \<open>s\<close>.\<close>

lemma startswith_iff: "startswith s p \<longleftrightarrow> (\<exists>v. s = p @ v)"
  by (induction s p rule: startswith.induct) auto

lemma contains_iff: "contains s t \<longleftrightarrow> (\<exists>u v. s = u @ t @ v)"
proof (induction s)
  case Nil
  then show ?case by simp
next
  case (Cons c cs)
  show ?case
  proof
    assume "contains (c # cs) t"
    then consider "startswith (c # cs) t" | "contains cs t" by auto
    then show "\<exists>u v. c # cs = u @ t @ v"
    proof cases
      case 1
      then obtain v where "c # cs = t @ v" by (auto simp: startswith_iff)
      then have "c # cs = [] @ t @ v" by simp
      then show ?thesis by blast
    next
      case 2
      then obtain u v where "cs = u @ t @ v" using Cons.IH by auto
      then have "c # cs = (c # u) @ t @ v" by simp
      then show ?thesis by blast
    qed
  next
    assume "\<exists>u v. c # cs = u @ t @ v"
    then obtain u v where uv: "c # cs = u @ t @ v" by auto
    show "contains (c # cs) t"
    proof (cases u)
      case Nil
      then have "startswith (c # cs) t" using uv by (auto simp: startswith_iff)
      then show ?thesis by simp
    next
      case (Cons a u')
      then have "cs = u' @ t @ v" using uv by simp
      then have "contains cs t" using Cons.IH by blast
      then show ?thesis by simp
    qed
  qed
qed

text \<open>Replacing the three separator characters by a space and splitting at whitespace
  yields the keywords of the description.\<close>

lemma tokens_map:
  assumes "\<And>c. sep (f c) = sep' c" and "\<And>c. \<not> sep' c \<Longrightarrow> f c = c"
  shows "tokens sep cur (map f s) = tokens sep' cur s"
  using assms by (induction s arbitrary: cur) auto

lemma split_replace_keywords:
  "split (replace_char 0x2F 0x20 (replace_char 0xFF0C 0x20 (replace_char 0x2C 0x20 d)))
   = description_keywords d"
proof -
  define f :: "nat \<Rightarrow> nat" where
    "f = (\<lambda>c. if c = 0x2C \<or> c = 0xFF0C \<or> c = 0x2F then 0x20 else c)"
  have 1: "replace_char 0x2F 0x20 (replace_char 0xFF0C 0x20 (replace_char 0x2C 0x20 d)) = map f d"
    by (simp add: replace_char_def f_def)
  have 2: "isspace (f c) = is_separator c" for c
    by (simp add: is_separator_def isspace_def f_def)
  have 3: "\<not> is_separator c \<Longrightarrow> f c = c" for c
    by (simp add: is_separator_def f_def)
  have "tokens isspace [] (map f d) = tokens is_separator [] d"
    using 2 3 by (rule tokens_map)
  then show ?thesis
    by (simp add: 1 split_def description_keywords_def)
qed

lemma fuzzy_match_eq: "fuzzy_match d f = keyword_overlap d f"
  by (auto simp: fuzzy_match_def keyword_overlap_def split_replace_keywords Let_def)

subsection \<open>The loops in closed form\<close>

lemma match_test_cases_eq:
  "match_test_cases lower (lower d) tcs (cov, matched) =
     (cov \<or> list_ex (description_matches lower d) tcs,
      matched @ map test_id (filter (description_matches lower d) tcs))"
  by (induction tcs arbitrary: cov matched)
     (auto simp: description_matches_def fuzzy_match_eq Let_def)

lemma coverage_loop_eq:
  "coverage_loop lower idx tcs ms (covered, uncovered, details) =
     (covered @ filter (name_covered lower idx tcs) (map method_full_name ms),
      uncovered @ filter (\<lambda>n. \<not> name_covered lower idx tcs n) (map method_full_name ms),
      details @ map (\<lambda>m. name_detail lower idx tcs (method_full_name m)) ms)"
proof (induction ms arbitrary: covered uncovered details)
  case Nil
  then show ?case by simp
next
  case (Cons m ms)
  show ?case
    by (simp add: Cons.IH match_test_cases_eq name_covered_def name_detail_def Let_def)
qed

lemma analyze_coverage_nonempty:
  assumes "changed \<noteq> []"
  shows "analyze_coverage lower changed entries tcs =
     \<lparr>total_changed_methods = length changed,
      covered_methods =
        filter (name_covered lower (build_mapping_index Map.empty entries) tcs)
          (map method_full_name changed),
      uncovered_methods =
        filter (\<lambda>n. \<not> name_covered lower (build_mapping_index Map.empty entries) tcs n)
          (map method_full_name changed),
      coverage_rate =
        py_round (of_nat (length (filter (name_covered lower
             (build_mapping_index Map.empty entries) tcs) (map method_full_name changed)))
           / of_nat (length changed)) 4,
      coverage_details =
        map (\<lambda>m. name_detail lower (build_mapping_index Map.empty entries) tcs
                 (method_full_name m)) changed,
      error = None\<rparr>"
  using assms by (simp add: analyze_coverage_def coverage_loop_eq Let_def)

lemma build_mapping_index_absent:
  "n \<notin> full_qualified_name ` set entries \<Longrightarrow> build_mapping_index idx entries n = idx n"
  by (induction entries arbitrary: idx) auto



subsection \<open>Rounding\<close>





subsection \<open>Evaluation of the concrete inputs\<close>

lemmas example_defs = example_entry_def example_method_def example_test_def
  method_full_name_def full_qualified_name_def dict_get_def ascii_def ascii_lower_def



subsection \<open>Claims about the coverage analysis\<close>

text \<open>
  Claim C1.  Let a changed method have a non-empty description \<open>d\<close> in the mapping index.
  Its detail record is marked covered, and its qualified name is in the covered list,
  exactly when some test case matches: (a) the lower-cased description is contained in the
  lower-cased function text, or (b) the lower-cased function text is contained in the
  lower-cased description, or (c) of the \<open>k\<close> keywords of the lower-cased description
  (split at comma, fullwidth comma, slash and whitespace) at least \<open>max 1 (k div 2)\<close>
  are contained in the lower-cased function text.  The third check is what
  \<open>fuzzy_match\<close> computes, and the loop tries the three in this order.
\<close>

theorem analyze_coverage_fuzzy_covered:
  assumes "i < length changed"
    and "d = dict_get (build_mapping_index Map.empty entries) (method_full_name (changed ! i)) []"
    and "d \<noteq> []"
  shows "(is_covered (coverage_details (analyze_coverage lower changed entries tcs) ! i)
          \<longleftrightarrow> (\<exists>tc \<in> set tcs.
                contains (lower (test_function tc)) (lower d) \<or>
                contains (lower d) (lower (test_function tc)) \<or>
                max 1 (length (description_keywords (lower d)) div 2)
                  \<le> length (filter (\<lambda>kw. contains (lower (test_function tc)) kw)
                              (description_keywords (lower d)))))
       \<and> (method_full_name (changed ! i)
            \<in> set (covered_methods (analyze_coverage lower changed entries tcs))
          \<longleftrightarrow> is_covered (coverage_details (analyze_coverage lower changed entries tcs) ! i))
       \<and> (\<forall>tc. fuzzy_match (lower d) (lower (test_function tc))
            = (max 1 (length (description_keywords (lower d)) div 2)
                  \<le> length (filter (\<lambda>kw. contains (lower (test_function tc)) kw)
                              (description_keywords (lower d)))))"
proof -
  have ne: "changed \<noteq> []" using assms(1) by auto
  let ?idx = "build_mapping_index Map.empty entries"
  let ?n = "method_full_name (changed ! i)"
  have det: "coverage_details (analyze_coverage lower changed entries tcs) ! i
             = name_detail lower ?idx tcs ?n"
    using assms(1) by (simp add: analyze_coverage_nonempty[OF ne])
  have cov: "name_covered lower ?idx tcs ?n
             \<longleftrightarrow> (\<exists>tc \<in> set tcs. description_matches lower d tc)"
    using assms(2,3) by (simp add: name_covered_def list_ex_iff)
  have 1: "is_covered (name_detail lower ?idx tcs ?n) = name_covered lower ?idx tcs ?n"
    by (simp add: name_detail_def Let_def)
  have mem: "?n \<in> set (covered_methods (analyze_coverage lower changed entries tcs))
             \<longleftrightarrow> name_covered lower ?idx tcs ?n"
    using assms(1) by (auto simp: analyze_coverage_nonempty[OF ne])
  show ?thesis
    unfolding det 1 mem cov
    by (simp add: description_matches_def keyword_overlap_def fuzzy_match_eq Let_def)
qed

theorem analyze_coverage_fuzzy_covered_witness:
  "0 < length [example_method ''createUser'']
   \<and> ascii ''Create User'' \<noteq> []
   \<and> is_covered (coverage_details (analyze_coverage ascii_lower
         [example_method ''createUser''] [example_entry] [example_test]) ! 0)
   \<and> method_full_name ([example_method ''createUser''] ! 0)
        \<in> set (covered_methods (analyze_coverage ascii_lower
         [example_method ''createUser''] [example_entry] [example_test]))"
proof -
  have h1: "0 < length [example_method ''createUser'']" by simp
  have h2: "ascii ''Create User'' = dict_get (build_mapping_index Map.empty [example_entry])
        (method_full_name ([example_method ''createUser''] ! 0)) []"
    by (simp add: example_defs)
  have h3: "ascii ''Create User'' \<noteq> []" by (simp add: ascii_def)
  have m: "contains (ascii_lower (test_function example_test)) (ascii_lower (ascii ''Create User''))"
    by (simp add: example_defs)
  note T = analyze_coverage_fuzzy_covered[OF h1 h2 h3, of ascii_lower "[example_test]"]
  have c: "is_covered (coverage_details (analyze_coverage ascii_lower
         [example_method ''createUser''] [example_entry] [example_test]) ! 0)"
    using T[THEN conjunct1] m by (simp del: One_nat_def)
  have n: "method_full_name ([example_method ''createUser''] ! 0)
        \<in> set (covered_methods (analyze_coverage ascii_lower
         [example_method ''createUser''] [example_entry] [example_test]))"
    using T[THEN conjunct2, THEN conjunct1] c by (rule iffD2)
  show ?thesis using h1 h3 c n by (intro conjI)
qed

text \<open>
  Claim C2.  With an empty list of changed methods, \<open>analyze_coverage\<close> returns, for every
  mapping list and every test-case list, the result that carries the error
  "no code changes detected" and no coverage data: no covered or uncovered method, no
  detail record, and the counters at their defaults.  A non-empty list never yields an
  error, so the error result is told apart from a success with rate 0 or 1.
\<close>

theorem analyze_coverage_no_changes:
  "analyze_coverage lower [] mapping_entries test_cases =
     \<lparr>total_changed_methods = 0, covered_methods = [], uncovered_methods = [],
      coverage_rate = 0, coverage_details = [], error = Some no_changes_message\<rparr>
   \<and> error (analyze_coverage lower [] mapping_entries test_cases) \<noteq> None
   \<and> (\<forall>m ms. error (analyze_coverage lower (m # ms) mapping_entries test_cases) = None)"
  by (simp add: analyze_coverage_def Let_def split: prod.splits)



text \<open>
  Claim C6 (amended).  For a changed method whose qualified name has no mapping entry, the
  looked-up description is empty, the detail record is not covered, has no matched test
  and carries the placeholder text "no mapping description" as its description, and the
  qualified name is in the uncovered list and not in the covered one.
\<close>

theorem analyze_coverage_unmapped:
  assumes "i < length changed"
    and "method_full_name (changed ! i) \<notin> full_qualified_name ` set entries"
  shows "dict_get (build_mapping_index Map.empty entries) (method_full_name (changed ! i)) [] = []
       \<and> coverage_details (analyze_coverage lower changed entries tcs) ! i
         = \<lparr>detail_method = method_full_name (changed ! i),
            detail_description = no_mapping_description,
            is_covered = False, matched_tests = []\<rparr>
       \<and> method_full_name (changed ! i)
           \<in> set (uncovered_methods (analyze_coverage lower changed entries tcs))
       \<and> method_full_name (changed ! i)
           \<notin> set (covered_methods (analyze_coverage lower changed entries tcs))"
proof -
  have ne: "changed \<noteq> []" using assms(1) by auto
  let ?idx = "build_mapping_index Map.empty entries"
  let ?n = "method_full_name (changed ! i)"
  have d: "dict_get ?idx ?n [] = []"
    using build_mapping_index_absent[OF assms(2), of Map.empty] by (simp add: dict_get_def)
  have nc: "\<not> name_covered lower ?idx tcs ?n"
    using d by (simp add: name_covered_def)
  have mem: "?n \<in> set (map method_full_name changed)"
    using assms(1) by simp
  show ?thesis
    unfolding analyze_coverage_nonempty[OF ne]
    using d nc mem assms(1) by (simp add: name_detail_def)
qed

theorem analyze_coverage_unmapped_witness:
  "0 < length [example_method ''deleteUser'']
   \<and> method_full_name ([example_method ''deleteUser''] ! 0)
        \<notin> full_qualified_name ` set [example_entry]
   \<and> \<not> is_covered (coverage_details (analyze_coverage ascii_lower
         [example_method ''deleteUser''] [example_entry] [example_test]) ! 0)
   \<and> uncovered_methods (analyze_coverage ascii_lower
         [example_method ''deleteUser''] [example_entry] [example_test])
      = [ascii ''com.example.user.UserService.deleteUser'']"
proof -
  have h1: "0 < length [example_method ''deleteUser'']" by simp
  have h2: "method_full_name ([example_method ''deleteUser''] ! 0)
        \<notin> full_qualified_name ` set [example_entry]"
    by (simp add: example_defs)
  note T = analyze_coverage_unmapped[OF h1 h2, of ascii_lower "[example_test]"]
  have c: "\<not> is_covered (coverage_details (analyze_coverage ascii_lower
         [example_method ''deleteUser''] [example_entry] [example_test]) ! 0)"
    using T by simp
  have n: "method_full_name ([example_method ''deleteUser''] ! 0)
       \<notin> set (covered_methods (analyze_coverage ascii_lower
         [example_method ''deleteUser''] [example_entry] [example_test]))"
    using T by simp
  have u: "uncovered_methods (analyze_coverage ascii_lower
         [example_method ''deleteUser''] [example_entry] [example_test])
      = [ascii ''com.example.user.UserService.deleteUser'']"
    by (simp add: analyze_coverage_nonempty name_covered_def example_defs)
  show ?thesis using h1 h2 c u by (intro conjI)
qed

text \<open>The description of such a detail record is not the empty text.\<close>

theorem analyze_coverage_unmapped_counterexample:
  "method_full_name (example_method ''deleteUser'') \<notin> full_qualified_name ` set [example_entry]
   \<and> detail_description (coverage_details (analyze_coverage ascii_lower
         [example_method ''deleteUser''] [example_entry] [example_test]) ! 0)
       = no_mapping_description
   \<and> no_mapping_description \<noteq> []"
  by (simp add: analyze_coverage_nonempty name_detail_def build_mapping_index_absent)
     (simp add: example_defs no_mapping_description_def)





section \<open>Properties of the change detection\<close>

lemma extend_methods_eq: "extend_methods ms cs = ms @ concat (map methods cs)"
  by (induction cs arbitrary: ms) auto

lemma history_loop_eq: "history_loop S ms = S \<union> method_signature ` set ms"
  by (induction ms arbitrary: S) auto

lemma changed_loop_eq:
  "changed_loop S changed ms = changed @ filter (\<lambda>m. method_signature m \<notin> S) ms"
  by (induction ms arbitrary: changed) auto

lemma example_changed:
  "extract_changed_methods example_parse (ascii ''v2'') (ascii ''v1'')
   = [example_method_info ''createUser'' [''String'', ''int''],
      example_method_info ''deleteUser'' [''String'']]"
  by (simp add: extract_changed_methods_def extract_methods_from_code_def example_parse_def
       example_class_def example_method_info_def method_signature_def ascii_def Let_def)

text \<open>
  Claim C4.  Whatever the two method lists are that the parser yields,
  \<open>extract_changed_methods\<close> returns exactly the current methods, in their order, whose
  identity key \<^verbatim>\<open>package.Class.method(paramTypes)\<close> is not the key of a history method.
  So every returned method is a current method, and none has the key of a history method.
\<close>

theorem extract_changed_methods_new_keys:
  "extract_changed_methods parse current_code history_code
     = filter (\<lambda>m. method_signature m
                      \<notin> method_signature ` set (extract_methods_from_code parse history_code))
         (extract_methods_from_code parse current_code)
   \<and> set (extract_changed_methods parse current_code history_code)
       \<subseteq> set (extract_methods_from_code parse current_code)
   \<and> (\<forall>m \<in> set (extract_changed_methods parse current_code history_code).
        \<forall>h \<in> set (extract_methods_from_code parse history_code).
          method_signature m \<noteq> method_signature h)"
  by (auto simp: extract_changed_methods_def history_loop_eq changed_loop_eq Let_def)

theorem extract_changed_methods_new_keys_witness:
  "extract_changed_methods example_parse (ascii ''v2'') (ascii ''v1'')
     = [example_method_info ''createUser'' [''String'', ''int''],
        example_method_info ''deleteUser'' [''String'']]
   \<and> example_method_info ''createUser'' [''String'', ''int'']
       \<in> set (extract_changed_methods example_parse (ascii ''v2'') (ascii ''v1''))
   \<and> example_method_info ''createUser'' [''String'']
       \<in> set (extract_methods_from_code example_parse (ascii ''v1''))
   \<and> method_signature (example_method_info ''createUser'' [''String'', ''int''])
       \<noteq> method_signature (example_method_info ''createUser'' [''String''])"
proof -
  have a: "example_method_info ''createUser'' [''String'', ''int'']
       \<in> set (extract_changed_methods example_parse (ascii ''v2'') (ascii ''v1''))"
    by (simp add: example_changed)
  have b: "example_method_info ''createUser'' [''String'']
       \<in> set (extract_methods_from_code example_parse (ascii ''v1''))"
    by (simp add: extract_methods_from_code_def example_parse_def example_class_def)
  have c: "method_signature (example_method_info ''createUser'' [''String'', ''int''])
       \<noteq> method_signature (example_method_info ''createUser'' [''String''])"
    using extract_changed_methods_new_keys[of example_parse "ascii ''v2''" "ascii ''v1''"] a b
    by blast
  show ?thesis using example_changed a b c by (intro conjI)
qed

section \<open>Properties of the diff summary\<close>

text \<open>\<open>str_nat\<close> writes the decimal digits of its argument.\<close>

lemma str_nat_digits: "nat_of_digits (str_nat n) = n \<and> (\<forall>c \<in> set (str_nat n). 48 \<le> c \<and> c \<le> 57)"
proof (induction n rule: str_nat.induct)
  case (1 n)
  show ?case
  proof (cases "n < 10")
    case True
    then show ?thesis by (simp add: str_nat.simps[of n] nat_of_digits_def)
  next
    case False
    then have ih: "nat_of_digits (str_nat (n div 10)) = n div 10"
      and ihd: "\<forall>c \<in> set (str_nat (n div 10)). 48 \<le> c \<and> c \<le> 57"
      using 1 by auto
    have "nat_of_digits (str_nat n) = 10 * nat_of_digits (str_nat (n div 10)) + n mod 10"
      using False by (simp add: str_nat.simps[of n] nat_of_digits_def)
    then have a: "nat_of_digits (str_nat n) = n" using ih by simp
    have b: "\<forall>c \<in> set (str_nat n). 48 \<le> c \<and> c \<le> 57"
      using False ihd by (auto simp: str_nat.simps[of n])
    show ?thesis using a b by simp
  qed
qed

lemma append_content_eq:
  "append_content prefix lines side = lines @ map (\<lambda>line. prefix @ rstrip line) side"
  by (induction side arbitrary: lines) auto

lemma format_diffs_loop_eq:
  "format_diffs_loop lines i ds =
     lines @ concat (map (\<lambda>(k, d). diff_section k d) (zip [i..<i + length ds] ds))"
proof (induction ds arbitrary: lines i)
  case Nil
  then show ?case by simp
next
  case (Cons d ds)
  have step: "format_diffs_loop lines i (d # ds)
              = format_diffs_loop (lines @ diff_section i d) (Suc i) ds"
    by (simp add: Let_def append_content_eq diff_section_def side_block_def content_lines_def)
  have up: "[i..<i + length (d # ds)] = i # [Suc i..<Suc i + length ds]"
    by (simp add: upt_rec)
  show ?case
    unfolding step Cons.IH up by simp
qed

text \<open>
  Claim C9.  For a result without error, the summary is the three header lines followed
  by one section per file pair, joined by newlines.  A section is the title line, the
  line of the two counts, the block of the added side, the block of the removed side and
  an empty line.  The block of a side prints at most ten content lines: for a side of at
  most ten lines all of them, and for a longer side exactly the first ten, followed by
  one line that tells, in decimal digits, how many lines are left, the length of the side
  minus ten.
\<close>

theorem format_diff_summary_truncates:
  assumes "\<not> truthy (AnalysisResult.error result)"
  shows "format_diff_summary result
           = join [0x0A] (summary_header result @
               concat (map (\<lambda>(k, d). diff_section k d)
                         (zip [1..<1 + length (diffs result)] (diffs result))))
       \<and> (\<forall>k d. diff_section k d
             = [text_file @ str_nat k @ ascii '': '' @ package_path d,
                text_added @ str_nat (length (added_lines d)) @ text_removed @
                  str_nat (length (removed_lines d)) @ text_lines] @
               side_block text_added_content (ascii ''    + '') (added_lines d) @
               side_block text_removed_content (ascii ''    - '') (removed_lines d) @ [[]])
       \<and> (\<forall>label prefix side.
             length (content_lines prefix side) = min 10 (length side)
           \<and> length (content_lines prefix side) \<le> 10
           \<and> content_lines prefix side = map (\<lambda>line. prefix @ rstrip line) (take 10 side)
           \<and> (side = [] \<longrightarrow> side_block label prefix side = [])
           \<and> (side \<noteq> [] \<and> length side \<le> 10 \<longrightarrow>
                side_block label prefix side = label # content_lines prefix side)
           \<and> (10 < length side \<longrightarrow>
                length (content_lines prefix side) = 10
              \<and> side_block label prefix side
                  = label # content_lines prefix side @
                    [text_more @ str_nat (length side - 10) @ text_lines]
              \<and> nat_of_digits (str_nat (length side - 10)) = length side - 10))"
proof -
  have 1: "format_diff_summary result
           = join [0x0A] (summary_header result @
               concat (map (\<lambda>(k, d). diff_section k d)
                         (zip [1..<1 + length (diffs result)] (diffs result))))"
    using assms
    by (simp add: format_diff_summary_def format_diff_lines_def format_diffs_loop_eq
          summary_header_def)
  have 2: "\<forall>k d. diff_section k d
             = [text_file @ str_nat k @ ascii '': '' @ package_path d,
                text_added @ str_nat (length (added_lines d)) @ text_removed @
                  str_nat (length (removed_lines d)) @ text_lines] @
               side_block text_added_content (ascii ''    + '') (added_lines d) @
               side_block text_removed_content (ascii ''    - '') (removed_lines d) @ [[]]"
    by (simp add: diff_section_def)
  have 3: "length (content_lines prefix side) = min 10 (length side)
           \<and> length (content_lines prefix side) \<le> 10
           \<and> content_lines prefix side = map (\<lambda>line. prefix @ rstrip line) (take 10 side)
           \<and> (side = [] \<longrightarrow> side_block label prefix side = [])
           \<and> (side \<noteq> [] \<and> length side \<le> 10 \<longrightarrow>
                side_block label prefix side = label # content_lines prefix side)
           \<and> (10 < length side \<longrightarrow>
                length (content_lines prefix side) = 10
              \<and> side_block label prefix side
                  = label # content_lines prefix side @
                    [text_more @ str_nat (length side - 10) @ text_lines]
              \<and> nat_of_digits (str_nat (length side - 10)) = length side - 10)"
    for label prefix side
    by (auto simp: content_lines_def side_block_def str_nat_digits)
  show ?thesis using 1 2 3 by blast
qed

theorem format_diff_summary_truncates_witness:
  "\<not> truthy (AnalysisResult.error example_analysis)
   \<and> 10 < length (added_lines example_diff)
   \<and> length (content_lines (ascii ''    + '') (added_lines example_diff)) = 10
   \<and> side_block text_added_content (ascii ''    + '') (added_lines example_diff)
       = text_added_content # content_lines (ascii ''    + '') (added_lines example_diff) @
         [text_more @ str_nat (length (added_lines example_diff) - 10) @ text_lines]"
proof -
  have h: "\<not> truthy (AnalysisResult.error example_analysis)"
    by (simp add: example_analysis_def truthy_def)
  have l: "10 < length (added_lines example_diff)"
    by (simp add: example_diff_def)
  show ?thesis
    using format_diff_summary_truncates[OF h] h l by blast
qed

section \<open>Properties of the scoring\<close>



text \<open>The scenario of the specification: three numbered steps with action verbs score 100
  on completeness.\<close>

lemma example_completeness:
  "score (score_completeness ascii_decimal [example_steps_row]) = 100"
  by (simp add: score_completeness_def example_steps_row_def steps_of_def dict_get_def
       count_steps_def match_numbered_def match_step_word_def word_step_def is_mark_def
       ascii_decimal_def ascii_def action_words_def py_round_def round_half_even_def Let_def)



section \<open>Properties of the line diff\<close>

subsection \<open>The dictionary of indices\<close>

lemma chain_loop_eq:
  "chain_loop m i rest x =
     (if positions i rest x = [] then m x else Some (dict_get m x [] @ positions i rest x))"
proof (induction rest arbitrary: m i)
  case Nil
  then show ?case by simp
next
  case (Cons e rest)
  show ?case
    by (simp add: Cons.IH dict_get_def)
qed

lemma positions_set:
  "set (positions i rest x) = {j. i \<le> j \<and> j < i + length rest \<and> rest ! (j - i) = x}"
proof (induction rest arbitrary: i)
  case Nil
  then show ?case by simp
next
  case (Cons e rest)
  have "{j. i \<le> j \<and> j < i + length (e # rest) \<and> (e # rest) ! (j - i) = x}
        = (if e = x then {i} else {}) \<union>
          {j. Suc i \<le> j \<and> j < Suc i + length rest \<and> rest ! (j - Suc i) = x}"
  proof -
    have "(e # rest) ! (j - i) = rest ! (j - Suc i)" if "Suc i \<le> j" for j
      using that by (simp add: nth_Cons')
    then show ?thesis
      by (auto simp: le_Suc_eq nth_Cons' split: if_splits)
  qed
  then show ?case by (simp add: Cons.IH)
qed

lemma positions_sorted: "sorted (positions i rest x)"
proof (induction rest arbitrary: i)
  case Nil
  then show ?case by simp
next
  case (Cons e rest)
  have "\<forall>j \<in> set (positions (Suc i) rest x). i \<le> j"
    by (auto simp: positions_set)
  then show ?case by (simp add: Cons.IH)
qed

lemma chain_b_Some:
  assumes "chain_b b x = Some js"
  shows "js = positions 0 b x"
  using assms
  by (auto simp: chain_b_def Let_def chain_loop_eq dict_get_def split: if_splits option.splits)

lemma chain_b_row:
  assumes "chain_b a (a ! i) \<noteq> None" and "i < length a"
  shows "sorted (dict_get (chain_b a) (a ! i) [])
         \<and> i \<in> set (dict_get (chain_b a) (a ! i) [])
         \<and> (\<forall>j \<in> set (dict_get (chain_b a) (a ! i) []). j < length a \<and> a ! j = a ! i)"
proof -
  obtain js where js: "chain_b a (a ! i) = Some js" using assms(1) by auto
  have eq: "js = positions 0 a (a ! i)" using chain_b_Some[OF js] .
  have "dict_get (chain_b a) (a ! i) [] = positions 0 a (a ! i)"
    using js eq by (simp add: dict_get_def)
  then show ?thesis
    using assms(2) by (simp add: positions_sorted positions_set)
qed

lemma diag_run_le: "diag_run b2j a i \<le> Suc i"
  by (induction i) auto

subsection \<open>The longest match of a sequence with itself\<close>

lemma diag_run_indexed:
  "b2j (a ! i) \<noteq> None \<Longrightarrow> diag_run b2j a i = Suc (if i = 0 then 0 else diag_run b2j a (i - 1))"
  by (cases i) simp_all

lemma diag_run_not_indexed: "b2j (a ! i) = None \<Longrightarrow> diag_run b2j a i = 0"
  by (cases i) simp_all

lemma row_loop_inv:
  assumes "row_inv b2j a i dn (nj, bi, bj, bs)"
    and "prev_inv b2j a i j2len"
    and "sorted js"
    and "\<not> dn \<longrightarrow> i \<in> set js"
    and "\<forall>j \<in> set js. j < length a \<and> a ! j = a ! i"
    and "b2j (a ! i) \<noteq> None"
    and "i < length a"
  shows "row_inv b2j a i True (row_loop j2len i 0 (length a) js (nj, bi, bj, bs))"
  using assms(1,3,4,5)
proof (induction js arbitrary: dn nj bi bj bs)
  case Nil
  then show ?case by (cases dn) (simp_all add: row_inv_def)
next
  case (Cons j js)
  let ?D = "diag_run b2j a"
  have jn: "j < length a" and aj: "a ! j = a ! i" using Cons.prems(4) by auto
  have idx_j: "b2j (a ! j) \<noteq> None" using aj assms(6) by simp
  have Dj: "?D j = Suc (if j = 0 then 0 else ?D (j - 1))"
    using diag_run_indexed[of b2j a j] idx_j by simp
  have Di: "?D i = Suc (if i = 0 then 0 else ?D (i - 1))"
    using diag_run_indexed[of b2j a i] assms(6) by simp
  define k' where "k' = (if j = 0 then 0 else dict_get j2len (j - 1) 0)"
  have k'j: "k' \<le> (if j = 0 then 0 else ?D (j - 1))"
    using assms(2) by (auto simp: k'_def prev_inv_def dict_get_def split: option.splits)
  have k'i: "k' \<le> (if i = 0 then 0 else ?D (i - 1))"
    using assms(2) by (auto simp: k'_def prev_inv_def dict_get_def split: option.splits)
  have kj: "Suc k' \<le> ?D j" using k'j Dj by simp
  have ki: "Suc k' \<le> ?D i" using k'i Di by simp
  have kdiag: "Suc k' = ?D i" if "j = i"
  proof (cases "i = 0")
    case True
    then show ?thesis using that Di by (simp add: k'_def)
  next
    case False
    show ?thesis
    proof (cases "b2j (a ! (i - 1)) = None")
      case True
      then have "?D (i - 1) = 0" using diag_run_not_indexed[of b2j a "i - 1"] by simp
      then have "k' = 0" using k'i False by simp
      then show ?thesis using Di False \<open>?D (i - 1) = 0\<close> by simp
    next
      case idx: False
      then have "j2len (i - 1) = Some (?D (i - 1))"
        using assms(2) False by (simp add: prev_inv_def)
      then have "k' = ?D (i - 1)" using that False by (simp add: k'_def dict_get_def)
      then show ?thesis using Di False by simp
    qed
  qed
  have inv: "(\<forall>j k. nj j = Some k \<longrightarrow> k \<le> ?D j \<and> k \<le> ?D i)"
    and dnI: "dn \<longrightarrow> nj i = Some (?D i) \<and> ?D i \<le> bs"
    and bij: "bi = bj" and bn: "bi + bs \<le> length a" and cs: "\<forall>c<i. ?D c \<le> bs"
    using Cons.prems(1) by (auto simp: row_inv_def)
  have sorted_js: "sorted js" using Cons.prems(2) by simp
  have rest: "\<forall>j \<in> set js. j < length a \<and> a ! j = a ! i" using Cons.prems(4) by simp
  have step: "row_loop j2len i 0 (length a) (j # js) (nj, bi, bj, bs) =
     (if bs < Suc k'
      then row_loop j2len i 0 (length a) js (nj(j \<mapsto> Suc k'), Suc i - Suc k', Suc j - Suc k', Suc k')
      else row_loop j2len i 0 (length a) js (nj(j \<mapsto> Suc k'), bi, bj, bs))"
    using jn by (simp add: k'_def Let_def)
  show ?case
  proof (cases "bs < Suc k'")
    case True
    have ji: "j = i"
    proof (rule ccontr)
      assume ne: "j \<noteq> i"
      show False
      proof (cases "j < i")
        case True
        then have "?D j \<le> bs" using cs by simp
        then show False using kj \<open>bs < Suc k'\<close> by simp
      next
        case False
        then have gt: "i < j" using ne by simp
        have "dn"
        proof (rule ccontr)
          assume "\<not> dn"
          then have "i \<in> set (j # js)" using Cons.prems(3) by simp
          then have "j \<le> i" using Cons.prems(2) by auto
          then show False using gt by simp
        qed
        then have "?D i \<le> bs" using dnI by simp
        then show False using ki \<open>bs < Suc k'\<close> by simp
      qed
    qed
    have le: "Suc k' \<le> Suc i" using ki diag_run_le[of b2j a i] by simp
    have new: "row_inv b2j a i True (nj(j \<mapsto> Suc k'), Suc i - Suc k', Suc j - Suc k', Suc k')"
      unfolding row_inv_def
      using inv kj ki kdiag[OF ji] ji le cs True assms(7) by auto
    have "row_inv b2j a i True
            (row_loop j2len i 0 (length a) js
               (nj(j \<mapsto> Suc k'), Suc i - Suc k', Suc j - Suc k', Suc k'))"
      by (rule Cons.IH[OF new sorted_js _ rest]) simp
    then show ?thesis using True by (simp only: step if_True)
  next
    case False
    have new: "row_inv b2j a i (dn \<or> j = i) (nj(j \<mapsto> Suc k'), bi, bj, bs)"
      unfolding row_inv_def
      using inv kj ki kdiag dnI bij bn cs False by auto
    have mem: "\<not> (dn \<or> j = i) \<longrightarrow> i \<in> set js" using Cons.prems(3) by auto
    have "row_inv b2j a i True
            (row_loop j2len i 0 (length a) js (nj(j \<mapsto> Suc k'), bi, bj, bs))"
      by (rule Cons.IH[OF new sorted_js mem rest])
    then show ?thesis using False by (simp only: step if_False)
  qed
qed

lemma rows_loop_inv:
  assumes good: "\<forall>i<length a. b2j (a ! i) \<noteq> None \<longrightarrow>
            sorted (dict_get b2j (a ! i) []) \<and> i \<in> set (dict_get b2j (a ! i) [])
            \<and> (\<forall>j \<in> set (dict_get b2j (a ! i) []). j < length a \<and> a ! j = a ! i)"
    and "prev_inv b2j a i j2len"
    and "bi + bs \<le> length a"
    and "\<forall>c<i. diag_run b2j a c \<le> bs"
    and "i \<le> length a"
  shows "\<exists>j2len' bi' bs'.
           rows_loop a b2j 0 (length a) [i..<length a] (j2len, bi, bi, bs) = (j2len', bi', bi', bs')
           \<and> bi' + bs' \<le> length a"
  using assms(2-5)
proof (induction "length a - i" arbitrary: i j2len bi bs)
  case 0
  then have e: "[i..<length a] = []" by simp
  have "rows_loop a b2j 0 (length a) [] (j2len, bi, bi, bs) = (j2len, bi, bi, bs)
        \<and> bi + bs \<le> length a"
    using "0.prems"(2) by simp
  then show ?case unfolding e by blast
next
  case (Suc m)
  let ?D = "diag_run b2j a"
  have lt: "i < length a" using Suc.hyps(2) by simp
  have up: "[i..<length a] = i # [Suc i..<length a]" using lt by (simp add: upt_rec)
  have m: "m = length a - Suc i" using Suc.hyps(2) by simp
  show ?case
  proof (cases "b2j (a ! i) = None")
    case True
    have row: "row_loop j2len i 0 (length a) (dict_get b2j (a ! i) []) (Map.empty, bi, bi, bs)
               = (Map.empty, bi, bi, bs)"
      using True by (simp add: dict_get_def)
    have p: "prev_inv b2j a (Suc i) Map.empty"
      using True by (simp add: prev_inv_def)
    have "?D i = 0" using diag_run_not_indexed[of b2j a i] True by simp
    then have c: "\<forall>c<Suc i. ?D c \<le> bs" using Suc.prems(3) by (simp add: less_Suc_eq)
    have le: "Suc i \<le> length a" using lt by simp
    show ?thesis
      unfolding up rows_loop.simps row
      by (rule Suc.hyps(1)[OF m p Suc.prems(2) c le])
  next
    case False
    have gg: "sorted (dict_get b2j (a ! i) []) \<and> i \<in> set (dict_get b2j (a ! i) [])
            \<and> (\<forall>j \<in> set (dict_get b2j (a ! i) []). j < length a \<and> a ! j = a ! i)"
      using good lt False by blast
    have g: "sorted (dict_get b2j (a ! i) [])" "i \<in> set (dict_get b2j (a ! i) [])"
      "\<forall>j \<in> set (dict_get b2j (a ! i) []). j < length a \<and> a ! j = a ! i"
      using gg by blast+
    have start: "row_inv b2j a i False (Map.empty, bi, bi, bs)"
      using Suc.prems(2,3) by (simp add: row_inv_def)
    have mem: "\<not> False \<longrightarrow> i \<in> set (dict_get b2j (a ! i) [])" using g(2) by simp
    have fin: "row_inv b2j a i True
            (row_loop j2len i 0 (length a) (dict_get b2j (a ! i) []) (Map.empty, bi, bi, bs))"
      by (rule row_loop_inv[OF start Suc.prems(1) g(1) mem g(3) False lt])
    obtain nj bi' bj' bs' where
      st: "row_loop j2len i 0 (length a) (dict_get b2j (a ! i) []) (Map.empty, bi, bi, bs)
           = (nj, bi', bj', bs')"
      by (metis prod_cases4)
    have eq: "bj' = bi'" and bn: "bi' + bs' \<le> length a"
      and nj_le: "\<forall>j k. nj j = Some k \<longrightarrow> k \<le> ?D j \<and> k \<le> ?D i"
      and nj_i: "nj i = Some (?D i)" and di: "?D i \<le> bs'"
      and cs: "\<forall>c<i. ?D c \<le> bs'"
      using fin unfolding st by (auto simp: row_inv_def)
    have p: "prev_inv b2j a (Suc i) nj"
      using nj_le nj_i by (simp add: prev_inv_def)
    have c: "\<forall>c<Suc i. ?D c \<le> bs'" using cs di by (simp add: less_Suc_eq)
    have le: "Suc i \<le> length a" using lt by simp
    show ?thesis
      unfolding up rows_loop.simps st eq
      by (rule Suc.hyps(1)[OF m p bn c le])
  qed
qed

lemma extend_left_diagonal: "extend_left a a 0 0 (bi, bi, bs) = (0, 0, bs + bi)"
proof (induction bi arbitrary: bs)
  case 0
  then show ?case by (simp add: extend_left.simps[of a a 0 0 0 0 bs])
next
  case (Suc bi)
  have "extend_left a a 0 0 (Suc bi, Suc bi, bs) = extend_left a a 0 0 (bi, bi, bs + 1)"
    by (simp add: extend_left.simps[of a a 0 0 "Suc bi" "Suc bi" bs])
  then show ?case using Suc.IH[of "bs + 1"] by simp
qed

lemma extend_right_diagonal:
  "bi + bs \<le> n \<Longrightarrow> extend_right a a n n (bi, bi, bs) = (bi, bi, n - bi)"
proof (induction "n - (bi + bs)" arbitrary: bs)
  case 0
  then have "bi + bs = n" by simp
  then show ?case by (auto simp: extend_right.simps[of a a n n bi bi bs])
next
  case (Suc m)
  have lt: "bi + bs < n" using Suc.hyps(2) by simp
  have "extend_right a a n n (bi, bi, bs) = extend_right a a n n (bi, bi, bs + 1)"
    using lt by (simp add: extend_right.simps[of a a n n bi bi bs])
  moreover have "extend_right a a n n (bi, bi, bs + 1) = (bi, bi, n - bi)"
    by (rule Suc.hyps(1)) (use Suc.hyps(2) lt in simp_all)
  ultimately show ?case by simp
qed

lemma find_longest_match_identical:
  "find_longest_match a a (chain_b a) 0 (length a) 0 (length a) = (0, 0, length a)"
proof -
  have good: "\<forall>i<length a. chain_b a (a ! i) \<noteq> None \<longrightarrow>
            sorted (dict_get (chain_b a) (a ! i) []) \<and> i \<in> set (dict_get (chain_b a) (a ! i) [])
            \<and> (\<forall>j \<in> set (dict_get (chain_b a) (a ! i) []). j < length a \<and> a ! j = a ! i)"
    using chain_b_row by blast
  have p: "prev_inv (chain_b a) a 0 Map.empty" by (simp add: prev_inv_def)
  have "\<exists>j2len' bi' bs'.
           rows_loop a (chain_b a) 0 (length a) [0..<length a] (Map.empty, 0, 0, 0)
             = (j2len', bi', bi', bs')
           \<and> bi' + bs' \<le> length a"
    by (rule rows_loop_inv[OF good p]) simp_all
  then obtain j2len' bi' bs' where
    r: "rows_loop a (chain_b a) 0 (length a) [0..<length a] (Map.empty, 0, 0, 0)
          = (j2len', bi', bi', bs')"
    and le: "bi' + bs' \<le> length a" by blast
  have le2: "0 + (bs' + bi') \<le> length a" using le by simp
  show ?thesis
    by (simp add: find_longest_match_def r extend_left_diagonal
          extend_right_diagonal[OF le2])
qed

lemma blocks_loop_Nil: "blocks_loop a b b2j [] matching_blocks = Some matching_blocks"
  by (subst blocks_loop.simps) simp

lemma blocks_loop_identical:
  "blocks_loop a a (chain_b a) [(0, length a, 0, length a)] []
     = Some (if length a = 0 then [] else [(0, 0, length a)])"
  by (subst blocks_loop.simps) (simp add: find_longest_match_identical blocks_loop_Nil)

subsection \<open>The groups of opcodes\<close>

text \<open>Every group that \<open>get_grouped_opcodes\<close> yields has an opcode, so its first and
  its last opcode exist when \<open>diff_loop\<close> reads them.\<close>

lemma group_loop_nonempty:
  assumes "\<forall>g \<in> set groups. g \<noteq> []"
  shows "\<forall>g \<in> set (snd (group_loop codes (grp, groups))). g \<noteq> []"
  using assms
proof (induction codes arbitrary: grp groups)
  case Nil
  then show ?case by simp
next
  case (Cons c codes)
  obtain tg i1 i2 j1 j2 where c: "c = (tg, i1, i2, j1, j2)" by (cases c) auto
  have ext: "\<forall>g \<in> set (groups @ [grp @ [x]]). g \<noteq> []" for x :: opcode
    using Cons.prems by simp
  show ?case
  proof (cases "tg = Equal \<and> 6 < i2 - i1")
    case True
    then show ?thesis
      unfolding c using Cons.IH[OF ext] by simp
  next
    case False
    then show ?thesis
      unfolding c using Cons.IH[OF Cons.prems] by auto
  qed
qed

lemma grouped_opcodes_nonempty:
  assumes "get_grouped_opcodes a b = Some groups"
  shows "\<forall>g \<in> set groups. g \<noteq> []"
proof (cases "get_opcodes a b")
  case None
  then show ?thesis using assms by (simp add: get_grouped_opcodes_def)
next
  case (Some codes)
  define cs where
    "cs = trim_last (trim_first (if codes = [] then [(Equal, 0, 1, 0, 1)] else codes))"
  obtain grp gs where g: "group_loop cs ([], []) = (grp, gs)" by (cases "group_loop cs ([], [])")
  have "\<forall>x \<in> set (snd (group_loop cs ([], []))). x \<noteq> []"
    by (rule group_loop_nonempty) simp
  then have gs: "\<forall>x \<in> set gs. x \<noteq> []" by (simp add: g)
  have "groups = (if grp \<noteq> [] \<and> \<not> (length grp = 1 \<and> fst (hd grp) = Equal)
                  then gs @ [grp] else gs)"
    using assms Some g by (simp add: get_grouped_opcodes_def cs_def Let_def)
  then show ?thesis using gs by auto
qed

subsection \<open>No difference between a sequence and itself\<close>

lemma get_matching_blocks_identical:
  "get_matching_blocks a a =
     Some (if length a = 0 then [(0, 0, 0)] else [(0, 0, length a), (length a, length a, 0)])"
proof (cases "length a = 0")
  case True
  have b: "blocks_loop a a (chain_b a) [(0, length a, 0, length a)] [] = Some []"
    by (simp only: blocks_loop_identical if_P[OF True])
  have c: "collapse_loop (sort ([] :: match list)) ((0, 0, 0), []) = ((0, 0, 0), [])"
    by simp
  have "get_matching_blocks a a = Some [(length a, length a, 0)]"
    unfolding get_matching_blocks_def b option.case c prod.case by simp
  then show ?thesis using True by simp
next
  case False
  have b: "blocks_loop a a (chain_b a) [(0, length a, 0, length a)] [] = Some [(0, 0, length a)]"
    by (simp only: blocks_loop_identical if_not_P[OF False])
  have s: "sort [(0 :: nat, 0 :: nat, length a)] = [(0, 0, length a)]"
    by simp
  have c: "collapse_loop [(0, 0, length a)] ((0, 0, 0), []) = ((0, 0, length a), [])"
    by simp
  have "get_matching_blocks a a = Some ([(0, 0, length a)] @ [(length a, length a, 0)])"
    unfolding get_matching_blocks_def b option.case s c prod.case using False by simp
  then show ?thesis using False by simp
qed

lemma get_opcodes_identical:
  "get_opcodes a a = Some (if length a = 0 then [] else [(Equal, 0, length a, 0, length a)])"
  unfolding get_opcodes_def get_matching_blocks_identical
  by (simp add: Let_def)

lemma group_single_equal:
  assumes "i2 - i1 \<le> 6"
  shows "group_loop [(Equal, i1, i2, j1, j2)] ([], []) = ([(Equal, i1, i2, j1, j2)], [])"
  using assms by simp

lemma grouped_of_single:
  "(let codes = trim_first [(Equal, i1, i2, j1, j2)]; codes = trim_last codes
    in case group_loop codes ([], []) of
         (grp, groups) \<Rightarrow>
           Some (if grp \<noteq> [] \<and> \<not> (length grp = 1 \<and> fst (hd grp) = Equal)
                 then groups @ [grp] else groups)) = Some []"
proof -
  have t1: "trim_first [(Equal, i1, i2, j1, j2)] = [(Equal, max i1 (i2 - 3), i2, max j1 (j2 - 3), j2)]"
    by (simp add: trim_first_def)
  have t2: "trim_last [(Equal, max i1 (i2 - 3), i2, max j1 (j2 - 3), j2)]
            = [(Equal, max i1 (i2 - 3), min i2 (max i1 (i2 - 3) + 3),
                max j1 (j2 - 3), min j2 (max j1 (j2 - 3) + 3))]"
    by (simp add: trim_last_def)
  have le: "min i2 (max i1 (i2 - 3) + 3) - max i1 (i2 - 3) \<le> 6"
    by simp
  show ?thesis
    unfolding Let_def t1 t2 group_single_equal[OF le]
    by simp
qed

lemma get_grouped_opcodes_identical: "get_grouped_opcodes a a = Some []"
proof (cases "length a = 0")
  case True
  have c: "get_opcodes a a = Some []"
    by (simp only: get_opcodes_identical if_P[OF True])
  show ?thesis
    unfolding get_grouped_opcodes_def c option.case
    using grouped_of_single[of 0 1 0 1] by simp
next
  case False
  have c: "get_opcodes a a = Some [(Equal, 0, length a, 0, length a)]"
    by (simp only: get_opcodes_identical if_not_P[OF False])
  show ?thesis
    unfolding get_grouped_opcodes_def c option.case
    using grouped_of_single[of 0 "length a" 0 "length a"] by simp
qed

lemma unified_diff_identical: "unified_diff a a = Some []"
  by (simp add: unified_diff_def get_grouped_opcodes_identical)

text \<open>
  Claim C7.  For every text \<open>x\<close>, \<open>compute_diff x x\<close> returns a result, and in it the added
  lines and the removed lines are both empty (so are the changed lines; the package path
  is that of \<open>x\<close>).
\<close>

theorem compute_diff_identical:
  "compute_diff x x =
     Some \<lparr>package_path = extract_package_path x, added_lines = [], removed_lines = [],
           changed_lines = []\<rparr>"
  by (simp add: compute_diff_def unified_diff_identical)

end
